theory Spec2Isabelle
  imports Main "HOL-Library.Sublist"
begin

section \<open>The local uploader of whisper-modules\<close>

text \<open>
  The development embeds \<^verbatim>\<open>msg_storer/local_uploader/uploader.go\<close>: the message
  handler \<^verbatim>\<open>msgHandler\<close> and the ledger writer \<^verbatim>\<open>updateIndex\<close>, together with
  the functions of Go's \<^verbatim>\<open>strings\<close>, \<^verbatim>\<open>path\<close> and \<^verbatim>\<open>os\<close> packages that they call.
  A Go \<^verbatim>\<open>string\<close> is a byte sequence, here a \<^typ>\<open>string\<close> (a list of 8-bit characters).
\<close>

subsection \<open>Package strings\<close>

text \<open>
  \<^verbatim>\<open>strings.Index(s, substr)\<close>: the index of the first instance of \<open>substr\<close> in \<open>s\<close>.
  Go returns \<open>-1\<close> when there is none; the model returns \<open>None\<close>.
\<close>

fun strings_Index :: "string \<Rightarrow> string \<Rightarrow> nat option" where
  "strings_Index [] substr = (if substr = [] then Some 0 else None)"
| "strings_Index (c # cs) substr =
     (if prefix substr (c # cs) then Some 0
      else map_option Suc (strings_Index cs substr))"

text \<open>
  \<^verbatim>\<open>utf8.DecodeRuneInString(s)\<close>, its second result: the width in bytes of the first
  UTF-8 sequence of \<open>s\<close>; an invalid or truncated sequence has width 1, the empty string
  width 0. The bounds are those of the tables \<^verbatim>\<open>first\<close> and \<^verbatim>\<open>acceptRanges\<close>.
\<close>

definition utf8_size :: "string \<Rightarrow> nat" where
  "utf8_size s =
     (case s of
        [] \<Rightarrow> 0
      | c0 # _ \<Rightarrow>
          (let b0 = (of_char c0 :: nat) in
           if b0 < 0xC2 \<or> 0xF4 < b0 then 1
           else
             (let sz = (if b0 < 0xE0 then 2 else if b0 < 0xF0 then 3 else 4 :: nat);
                  lo = (if b0 = 0xE0 then 0xA0 else if b0 = 0xF0 then 0x90 else 0x80 :: nat);
                  hi = (if b0 = 0xED then 0x9F else if b0 = 0xF4 then 0x8F else 0xBF :: nat)
              in if length s < sz then 1
                 else if (of_char (s ! 1) :: nat) < lo \<or> hi < (of_char (s ! 1) :: nat) then 1
                 else if sz \<le> 2 then 2
                 else if (of_char (s ! 2) :: nat) < 0x80 \<or> 0xBF < (of_char (s ! 2) :: nat) then 1
                 else if sz \<le> 3 then 3
                 else if (of_char (s ! 3) :: nat) < 0x80 \<or> 0xBF < (of_char (s ! 3) :: nat) then 1
                 else 4)))"

lemma utf8_size_pos: "s \<noteq> [] \<Longrightarrow> 0 < utf8_size s"
  by (cases s) (simp_all add: utf8_size_def Let_def)

lemma strings_Index_bound:
  "strings_Index s substr = Some j \<Longrightarrow> j + length substr \<le> length s"
proof (induction s arbitrary: j)
  case Nil
  then show ?case by (simp split: if_splits)
next
  case (Cons c cs)
  show ?case
  proof (cases "prefix substr (c # cs)")
    case True
    with Cons.prems have "j = 0" by simp
    with prefix_length_le [OF True] show ?thesis by simp
  next
    case False
    with Cons.prems obtain k where "strings_Index cs substr = Some k" "j = Suc k"
      by auto
    with Cons.IH show ?thesis by simp
  qed
qed

text \<open>
  \<^verbatim>\<open>strings.Count(s, substr)\<close>: the number of non-overlapping instances of \<open>substr\<close>
  in \<open>s\<close>; for an empty \<open>substr\<close>, one more than the number of UTF-8 sequences of \<open>s\<close>.
\<close>

function rune_count :: "string \<Rightarrow> nat" where
  "rune_count s = (if s = [] then 0 else Suc (rune_count (drop (utf8_size s) s)))"
  by pat_completeness auto
termination
  by (relation "measure length") (auto simp: utf8_size_pos)

function count_loop :: "string \<Rightarrow> string \<Rightarrow> nat" where
  "count_loop s substr =
     (if substr = [] then 0
      else case strings_Index s substr of
             None \<Rightarrow> 0
           | Some i \<Rightarrow> Suc (count_loop (drop (i + length substr) s) substr))"
  by pat_completeness auto
termination
proof (relation "measure (\<lambda>(s, substr). length s)")
  show "wf (measure (\<lambda>(s, substr). length s))" by simp
next
  fix s substr :: string and i
  assume "substr \<noteq> []" and "strings_Index s substr = Some i"
  then have "0 < length substr" and "i + length substr \<le> length s"
    by (auto dest: strings_Index_bound)
  then have "length s - (i + length substr) < length s"
    by linarith
  then show "((drop (i + length substr) s, substr), (s, substr))
      \<in> measure (\<lambda>(s, substr). length s)"
    by simp
qed

definition strings_Count :: "string \<Rightarrow> string \<Rightarrow> nat" where
  "strings_Count s substr =
     (if substr = [] then rune_count s + 1 else count_loop s substr)"

text \<open>
  \<^verbatim>\<open>strings.SplitN(s, sep, n)\<close> is \<^verbatim>\<open>genSplit(s, sep, 0, n)\<close>. For an empty separator
  \<^verbatim>\<open>explode\<close> cuts \<open>s\<close> into UTF-8 sequences. Otherwise \<open>n\<close> is capped by
  \<open>len(s) + 1\<close> and the loop cuts at most \<open>n - 1\<close> times at the first separator left.
\<close>

fun explode_loop :: "nat \<Rightarrow> string \<Rightarrow> string list" where
  "explode_loop 0 s = [s]"
| "explode_loop (Suc k) s =
     take (utf8_size s) s # explode_loop k (drop (utf8_size s) s)"

definition explode :: "string \<Rightarrow> int \<Rightarrow> string list" where
  "explode s n =
     (let l = rune_count s;
          m = (if n < 0 \<or> int l < n then l else nat n)
      in if m = 0 then [] else explode_loop (m - 1) s)"

fun genSplit_loop :: "nat \<Rightarrow> string \<Rightarrow> string \<Rightarrow> string list" where
  "genSplit_loop 0 s sep = [s]"
| "genSplit_loop (Suc k) s sep =
     (case strings_Index s sep of
        None \<Rightarrow> [s]
      | Some m \<Rightarrow> take m s # genSplit_loop k (drop (m + length sep) s) sep)"

definition strings_SplitN :: "string \<Rightarrow> string \<Rightarrow> int \<Rightarrow> string list" where
  "strings_SplitN s sep n =
     (if n = 0 then []
      else if sep = [] then explode s n
      else
        (let n1 = (if n < 0 then strings_Count s sep + 1 else nat n);
             n2 = (if length s + 1 < n1 then length s + 1 else n1)
         in genSplit_loop (n2 - 1) s sep))"

text \<open>
  \<^verbatim>\<open>strings.ReplaceAll(s, old, new)\<close> is \<^verbatim>\<open>Replace(s, old, new, -1)\<close>: \<open>s\<close> itself
  when \<open>old = new\<close> or \<open>old\<close> does not occur; otherwise every non-overlapping instance
  of \<open>old\<close>, found from left to right by \<^verbatim>\<open>Index\<close>, is replaced. An empty \<open>old\<close> matches
  at the beginning of the string and after each UTF-8 sequence.
\<close>

function replace_loop :: "string \<Rightarrow> string \<Rightarrow> string \<Rightarrow> string" where
  "replace_loop s old new =
     (if old = [] then s
      else case strings_Index s old of
             None \<Rightarrow> s
           | Some j \<Rightarrow> take j s @ new @ replace_loop (drop (j + length old) s) old new)"
  by pat_completeness auto
termination
proof (relation "measure (\<lambda>(s, old, new). length s)")
  show "wf (measure (\<lambda>(s, old, new). length s))" by simp
next
  fix s old new :: string and j
  assume "old \<noteq> []" and "strings_Index s old = Some j"
  then have "0 < length old" and "j + length old \<le> length s"
    by (auto dest: strings_Index_bound)
  then have "length s - (j + length old) < length s"
    by linarith
  then show "((drop (j + length old) s, old, new), (s, old, new))
      \<in> measure (\<lambda>(s, old, new). length s)"
    by simp
qed

function replace_empty :: "string \<Rightarrow> string \<Rightarrow> string" where
  "replace_empty s new =
     (if s = [] then []
      else take (utf8_size s) s @ new @ replace_empty (drop (utf8_size s) s) new)"
  by pat_completeness auto
termination
  by (relation "measure (\<lambda>(s, new). length s)") (auto simp: utf8_size_pos)

definition strings_ReplaceAll :: "string \<Rightarrow> string \<Rightarrow> string \<Rightarrow> string" where
  "strings_ReplaceAll s old new =
     (if old = new then s
      else if old = [] then new @ replace_empty s new
      else replace_loop s old new)"

subsection \<open>Package path\<close>

text \<open>
  \<^verbatim>\<open>path.Clean\<close>: the shortest path name equivalent to \<open>path\<close> by purely lexical
  processing. \<open>clean_loop\<close> is its \<^verbatim>\<open>for r < n\<close> loop: \<open>out\<close> is the buffer written so
  far (\<^verbatim>\<open>out.w\<close> is its length), \<open>dotdot\<close> the index where \<^verbatim>\<open>..\<close> must stop, and the last
  argument the part of the path still to read. \<open>backtrack\<close> is the inner loop that
  removes the last element of the buffer.
\<close>

fun backtrack :: "string \<Rightarrow> nat \<Rightarrow> nat \<Rightarrow> nat" where
  "backtrack out dotdot w =
     (if dotdot < w \<and> out ! w \<noteq> CHR ''/'' then backtrack out dotdot (w - 1) else w)"

declare backtrack.simps [simp del]

function clean_loop :: "bool \<Rightarrow> string \<Rightarrow> nat \<Rightarrow> string \<Rightarrow> string" where
  "clean_loop rooted out dotdot [] = out"
| "clean_loop rooted out dotdot (c # cs) =
     (if c = CHR ''/'' then clean_loop rooted out dotdot cs
      else if c = CHR ''.'' \<and> (cs = [] \<or> hd cs = CHR ''/'') then
        clean_loop rooted out dotdot cs
      else if c = CHR ''.'' \<and> hd cs = CHR ''.'' \<and> (tl cs = [] \<or> hd (tl cs) = CHR ''/'') then
        (if dotdot < length out then
           clean_loop rooted (take (backtrack out dotdot (length out - 1)) out) dotdot (tl cs)
         else if \<not> rooted then
           (let out' = (if 0 < length out then out @ ''/'' else out) @ ''..''
            in clean_loop rooted out' (length out') (tl cs))
         else clean_loop rooted out dotdot (tl cs))
      else
        (let out' = (if rooted \<and> length out \<noteq> 1 \<or> \<not> rooted \<and> length out \<noteq> 0
                     then out @ ''/'' else out)
         in clean_loop rooted (out' @ takeWhile (\<lambda>x. x \<noteq> CHR ''/'') (c # cs)) dotdot
              (dropWhile (\<lambda>x. x \<noteq> CHR ''/'') (c # cs))))"
  by pat_completeness auto
termination
proof (relation "measure (\<lambda>(rooted, out, dotdot, rest). length rest)")
  show "wf (measure (\<lambda>(rooted, out, dotdot, rest). length rest))" by simp
next
  fix rooted :: bool and out :: string and dotdot :: nat and c :: char and cs :: string
    and x :: string
  assume "c \<noteq> CHR ''/''"
  have "length (dropWhile (\<lambda>x. x \<noteq> CHR ''/'') cs) \<le> length cs"
    by (rule length_dropWhile_le)
  with \<open>c \<noteq> CHR ''/''\<close>
  show "((rooted, x @ takeWhile (\<lambda>x. x \<noteq> CHR ''/'') (c # cs), dotdot,
          dropWhile (\<lambda>x. x \<noteq> CHR ''/'') (c # cs)), rooted, out, dotdot, c # cs)
        \<in> measure (\<lambda>(rooted, out, dotdot, rest). length rest)"
    by simp
qed (auto simp: less_Suc_eq_le intro: le_trans [OF _ le_SucI])

definition path_Clean :: "string \<Rightarrow> string" where
  "path_Clean p =
     (if p = [] then ''.''
      else
        (let rooted = (hd p = CHR ''/'');
             out = (if rooted then clean_loop True ''/'' 1 (tl p)
                    else clean_loop False [] 0 p)
         in if out = [] then ''.'' else out))"

text \<open>
  \<^verbatim>\<open>path.Split\<close> cuts after the final slash; \<^verbatim>\<open>path.Dir\<close> cleans the first half;
  \<^verbatim>\<open>path.Join\<close> joins the elements with slashes, ignoring empty ones at the front, and
  cleans the result (an all-empty argument list gives the empty string).
\<close>

definition path_Split :: "string \<Rightarrow> string \<times> string" where
  "path_Split p =
     (rev (dropWhile (\<lambda>x. x \<noteq> CHR ''/'') (rev p)),
      rev (takeWhile (\<lambda>x. x \<noteq> CHR ''/'') (rev p)))"

definition path_Dir :: "string \<Rightarrow> string" where
  "path_Dir p = path_Clean (fst (path_Split p))"

fun join_loop :: "string \<Rightarrow> string list \<Rightarrow> string" where
  "join_loop buf [] = buf"
| "join_loop buf (e # es) =
     join_loop (if buf \<noteq> [] \<or> e \<noteq> []
                then (if buf \<noteq> [] then buf @ ''/'' else buf) @ e
                else buf) es"

definition path_Join :: "string list \<Rightarrow> string" where
  "path_Join elem =
     (if concat elem = [] then [] else path_Clean (join_loop [] elem))"

subsection \<open>The file system, the message and the log\<close>

text \<open>
  The handler runs against three collaborators: the operating system's file system, the
  message it acknowledges and the logger. The file system is a table from cleaned path
  names to nodes (there are no symbolic links); the parent of a cleaned name is its
  \<^verbatim>\<open>path.Dir\<close>. Every call of package \<^verbatim>\<open>os\<close> is recorded in
  \<open>calls\<close>, in order. A call can also fail for reasons outside the table (permissions,
  a full disk, a rename across devices): \<open>faults\<close> gives the error of each such call, and
  a call that fails this way changes no node.
\<close>

datatype errno =
  ENOENT | ENOTDIR | EISDIR | EEXIST | EINVAL | EBUSY | EBADF | EACCES | ENOSPC | EXDEV | EIO

datatype oserror =
  PathError string string errno
| LinkError string string string errno

datatype node = File string | Dir

datatype oflag = O_APPEND | O_CREATE | O_WRONLY

record osfile =
  fname :: string
  fflag :: "oflag list"

datatype oscall =
  MkdirAll string nat
| Rename string string
| OpenFile string "oflag list" nat
| WriteString string string
| Sync string
| Close string

datatype ack = Ack | Nak

datatype logentry =
  LogError oserror
| LogDebug string string string

record world =
  files :: "string \<Rightarrow> node option"
  faults :: "oscall \<Rightarrow> errno option"
  calls :: "oscall list"
  acks :: "ack list"
  logged :: "logentry list"

text \<open>
  How the kernel resolves a name that the program passes as it came (the payload's file
  name reaches \<^verbatim>\<open>os.Rename\<close> uncleaned). The name is cut at its slashes into elements,
  empty ones dropped. \<open>walk\<close> goes from a directory through the elements: each
  directory on the way must be in the table, a file there is \<^verbatim>\<open>ENOTDIR\<close>, a missing
  one \<^verbatim>\<open>ENOENT\<close>, also when a later \<^verbatim>\<open>..\<close> would leave it again. \<open>namei_parent\<close>
  resolves all but the last element, starting at the root for a rooted name and at the
  working directory otherwise; \<open>namei\<close> adds the last element, whose node may be missing.
\<close>

fun split_slash :: "string \<Rightarrow> string list" where
  "split_slash [] = [[]]"
| "split_slash (c # cs) =
     (if c = CHR ''/'' then [] # split_slash cs
      else (case split_slash cs of [] \<Rightarrow> [[c]] | e # es \<Rightarrow> (c # e) # es))"

definition elements :: "string \<Rightarrow> string list" where
  "elements name = filter (\<lambda>e. e \<noteq> []) (split_slash name)"

fun walk :: "(string \<Rightarrow> node option) \<Rightarrow> string \<Rightarrow> string list \<Rightarrow> errno + string" where
  "walk fs cur [] =
     (case fs cur of
        None \<Rightarrow> Inl ENOENT
      | Some (File _) \<Rightarrow> Inl ENOTDIR
      | Some Dir \<Rightarrow> Inr cur)"
| "walk fs cur (e # es) =
     (case fs cur of
        None \<Rightarrow> Inl ENOENT
      | Some (File _) \<Rightarrow> Inl ENOTDIR
      | Some Dir \<Rightarrow> walk fs (path_Clean (cur @ ''/'' @ e)) es)"

definition namei_parent :: "(string \<Rightarrow> node option) \<Rightarrow> string \<Rightarrow> errno + string" where
  "namei_parent fs name =
     (if name = [] then Inl ENOENT
      else walk fs (if hd name = CHR ''/'' then ''/'' else ''.'') (butlast (elements name)))"

definition last_element :: "string \<Rightarrow> string option" where
  "last_element name = (if elements name = [] then None else Some (last (elements name)))"

definition namei :: "(string \<Rightarrow> node option) \<Rightarrow> string \<Rightarrow> errno + string" where
  "namei fs name =
     (case namei_parent fs name of
        Inl e \<Rightarrow> Inl e
      | Inr d \<Rightarrow>
          (case last_element name of
             None \<Rightarrow> Inr d
           | Some e \<Rightarrow> Inr (path_Clean (d @ ''/'' @ e))))"

text \<open>
  A name with a trailing slash can only name a directory; a name whose last element is
  \<^verbatim>\<open>.\<close> or \<^verbatim>\<open>..\<close> (or that has no element at all, as \<^verbatim>\<open>/\<close>) cannot be renamed.
\<close>

definition trailing_slash :: "string \<Rightarrow> bool" where
  "trailing_slash name = (name \<noteq> [] \<and> last name = CHR ''/'')"

definition normal_last :: "string \<Rightarrow> bool" where
  "normal_last name =
     (case last_element name of None \<Rightarrow> False | Some e \<Rightarrow> e \<noteq> ''.'' \<and> e \<noteq> ''..'')"

text \<open>
  \<^verbatim>\<open>os.Stat\<close> and \<^verbatim>\<open>os.Lstat\<close> (the same without symbolic links): the node a name
  resolves to, or the error of the resolution.
\<close>

definition stat :: "(string \<Rightarrow> node option) \<Rightarrow> string \<Rightarrow> errno + node" where
  "stat fs name =
     (case namei fs name of
        Inl e \<Rightarrow> Inl e
      | Inr k \<Rightarrow>
          (case fs k of
             None \<Rightarrow> Inl ENOENT
           | Some Dir \<Rightarrow> Inr Dir
           | Some (File c) \<Rightarrow> if trailing_slash name then Inl ENOTDIR else Inr (File c)))"

text \<open>
  \<^verbatim>\<open>os.Mkdir\<close>: one new directory, whose parent must be a directory. The handler
  reaches it only through \<^verbatim>\<open>MkdirAll\<close> on a result of \<^verbatim>\<open>path.Dir\<close>, so with a cleaned
  name or such a name followed by a slash; the table is read at the cleaned name.
\<close>

definition mkdir ::
  "string \<Rightarrow> (string \<Rightarrow> node option) \<Rightarrow> errno option \<times> (string \<Rightarrow> node option)" where
  "mkdir name fs =
     (if name = [] then (Some ENOENT, fs)
      else
        (let k = path_Clean name in
         case fs k of
           Some _ \<Rightarrow> (Some EEXIST, fs)
         | None \<Rightarrow>
             (case fs (path_Dir k) of
                None \<Rightarrow> (Some ENOENT, fs)
              | Some (File _) \<Rightarrow> (Some ENOTDIR, fs)
              | Some Dir \<Rightarrow> (None, fs(k \<mapsto> Dir)))))"

text \<open>
  \<^verbatim>\<open>os.MkdirAll\<close>: nothing to do for a directory, \<^verbatim>\<open>ENOTDIR\<close> for a file; otherwise
  the parent (\<open>parent_of\<close>: the name without its last element and the slashes after it)
  is made first, then the directory itself; an error of that \<^verbatim>\<open>Mkdir\<close> is forgiven
  when the directory is there.
\<close>

definition parent_of :: "string \<Rightarrow> string" where
  "parent_of name =
     rev (dropWhile (\<lambda>x. x \<noteq> CHR ''/'') (dropWhile (\<lambda>x. x = CHR ''/'') (rev name)))"

lemma parent_shorter:
  assumes "parent_of name \<noteq> []"
  shows "length (parent_of name) < length name"
proof -
  define ys where "ys = dropWhile (\<lambda>x. x = CHR ''/'') (rev name)"
  have parent: "parent_of name = rev (dropWhile (\<lambda>x. x \<noteq> CHR ''/'') ys)"
    by (simp only: parent_of_def ys_def)
  have "ys \<noteq> []"
  proof
    assume "ys = []"
    with parent have "parent_of name = []" by simp
    with assms show False by contradiction
  qed
  then obtain y ys' where ys: "ys = y # ys'" by (cases ys) auto
  have "\<not> (hd ys = CHR ''/'')"
    using \<open>ys \<noteq> []\<close> unfolding ys_def by (rule hd_dropWhile)
  with ys have "y \<noteq> CHR ''/''" by simp
  with ys have "dropWhile (\<lambda>x. x \<noteq> CHR ''/'') ys = dropWhile (\<lambda>x. x \<noteq> CHR ''/'') ys'"
    by simp
  moreover have "length (dropWhile (\<lambda>x. x \<noteq> CHR ''/'') ys') \<le> length ys'"
    by (rule length_dropWhile_le)
  moreover have "length ys \<le> length (rev name)"
    unfolding ys_def by (rule length_dropWhile_le)
  ultimately show ?thesis using ys parent by simp
qed

function mkdirAll ::
  "string \<Rightarrow> (string \<Rightarrow> node option) \<Rightarrow> errno option \<times> (string \<Rightarrow> node option)" where
  "mkdirAll name fs =
     (case stat fs name of
        Inr Dir \<Rightarrow> (None, fs)
      | Inr (File _) \<Rightarrow> (Some ENOTDIR, fs)
      | Inl _ \<Rightarrow>
          (case (if parent_of name \<noteq> [] then mkdirAll (parent_of name) fs else (None, fs)) of
             (Some e, fs1) \<Rightarrow> (Some e, fs1)
           | (None, fs1) \<Rightarrow>
               (case mkdir name fs1 of
                  (None, fs2) \<Rightarrow> (None, fs2)
                | (Some e, fs2) \<Rightarrow>
                    (case stat fs2 name of
                       Inr Dir \<Rightarrow> (None, fs2)
                     | _ \<Rightarrow> (Some e, fs2)))))"
  by pat_completeness auto
termination
  by (relation "measure (\<lambda>(name, fs). length name)") (simp_all add: parent_shorter)

text \<open>
  \<^verbatim>\<open>os.Rename\<close> on Unix. Go first refuses a new name that is a directory (with the
  error of \<^verbatim>\<open>Lstat\<close> on the old name when that fails, else \<^verbatim>\<open>EEXIST\<close>, unless both
  names are different spellings of that directory). Then \<^verbatim>\<open>rename(2)\<close>, which gets both
  names as they are: both must resolve, with a normal last element; the old name must
  exist; a file cannot be named with a trailing slash on either side; a name renamed to
  itself is left alone; a file replaces the file at the new name, if there is one; a
  directory moves with all that is under it, but not onto a file nor into itself. (After
  Go's check the new name is a directory only when it is the old one.)
\<close>

definition under :: "string \<Rightarrow> string \<Rightarrow> bool" where
  "under d p = (p = d \<or> prefix (if d = ''/'' then d else d @ ''/'') p)"

definition rename ::
  "string \<Rightarrow> string \<Rightarrow> (string \<Rightarrow> node option)
     \<Rightarrow> errno option \<times> (string \<Rightarrow> node option)" where
  "rename oldname newname fs =
     (if stat fs newname = Inr Dir
        \<and> (isl (stat fs oldname) \<or> newname = oldname \<or> namei fs oldname \<noteq> namei fs newname)
      then (case stat fs oldname of Inl e \<Rightarrow> (Some e, fs) | Inr _ \<Rightarrow> (Some EEXIST, fs))
      else
        (case namei fs oldname of
           Inl e \<Rightarrow> (Some e, fs)
         | Inr ko \<Rightarrow>
             (case namei fs newname of
                Inl e \<Rightarrow> (Some e, fs)
              | Inr kn \<Rightarrow>
                  if \<not> normal_last oldname \<or> \<not> normal_last newname then (Some EBUSY, fs)
                  else
                    (case fs ko of
                       None \<Rightarrow> (Some ENOENT, fs)
                     | Some (File c) \<Rightarrow>
                         if trailing_slash oldname \<or> trailing_slash newname
                         then (Some ENOTDIR, fs)
                         else if ko = kn then (None, fs)
                         else (None, (fs(ko := None))(kn \<mapsto> File c))
                     | Some Dir \<Rightarrow>
                         if ko = kn then (None, fs)
                         else if fs kn \<noteq> None then (Some ENOTDIR, fs)
                         else if under ko kn then (Some EINVAL, fs)
                         else
                           (None,
                            (\<lambda>p. if under kn p then fs (ko @ drop (length kn) p)
                                  else if under ko p then None
                                  else fs p))))))"

text \<open>
  \<^verbatim>\<open>os.OpenFile\<close>: a directory cannot be opened for writing; an existing file is opened
  as it is; a missing one is created empty when \<^verbatim>\<open>O_CREATE\<close> is given and its parent is
  a directory. The handler opens only a result of \<^verbatim>\<open>path.Join\<close>, a cleaned name, so the
  table is read at the cleaned name. The handle keeps that name and the flags.
\<close>

definition openFile ::
  "string \<Rightarrow> oflag list \<Rightarrow> (string \<Rightarrow> node option)
     \<Rightarrow> (errno + osfile) \<times> (string \<Rightarrow> node option)" where
  "openFile name flag fs =
     (if name = [] then (Inl ENOENT, fs)
      else
        (let k = path_Clean name in
         case fs k of
           Some Dir \<Rightarrow>
             (if O_WRONLY \<in> set flag \<or> O_CREATE \<in> set flag then (Inl EISDIR, fs)
              else (Inr \<lparr>fname = k, fflag = flag\<rparr>, fs))
         | Some (File _) \<Rightarrow> (Inr \<lparr>fname = k, fflag = flag\<rparr>, fs)
         | None \<Rightarrow>
             (if O_CREATE \<in> set flag then
                (case fs (path_Dir k) of
                   None \<Rightarrow> (Inl ENOENT, fs)
                 | Some (File _) \<Rightarrow> (Inl ENOTDIR, fs)
                 | Some Dir \<Rightarrow> (Inr \<lparr>fname = k, fflag = flag\<rparr>, fs(k \<mapsto> File [])))
              else (Inl ENOENT, fs))))"

text \<open>
  \<^verbatim>\<open>write(2)\<close> through a fresh handle: with \<^verbatim>\<open>O_APPEND\<close> the bytes go to the end of
  the file, otherwise they overwrite it from offset 0.
\<close>

definition writeString ::
  "osfile \<Rightarrow> string \<Rightarrow> (string \<Rightarrow> node option)
     \<Rightarrow> errno option \<times> (string \<Rightarrow> node option)" where
  "writeString f b fs =
     (if O_WRONLY \<notin> set (fflag f) then (Some EBADF, fs)
      else
        (case fs (fname f) of
           Some (File c) \<Rightarrow>
             (None, fs(fname f \<mapsto>
                File (if O_APPEND \<in> set (fflag f) then c @ b else b @ drop (length b) c)))
         | _ \<Rightarrow> (Some EBADF, fs)))"

text \<open>
  The calls as the program makes them: each is recorded, fails with the error \<open>faults\<close>
  gives it, if any, and otherwise acts on the table. Errors are Go's \<^verbatim>\<open>*PathError\<close>
  and \<^verbatim>\<open>*LinkError\<close>.
\<close>

definition os_MkdirAll :: "string \<Rightarrow> nat \<Rightarrow> world \<Rightarrow> oserror option \<times> world" where
  "os_MkdirAll name perm w =
     (let w1 = w\<lparr>calls := calls w @ [MkdirAll name perm]\<rparr> in
      case faults w (MkdirAll name perm) of
        Some e \<Rightarrow> (Some (PathError ''mkdir'' name e), w1)
      | None \<Rightarrow>
          (case mkdirAll name (files w) of
             (None, fs) \<Rightarrow> (None, w1\<lparr>files := fs\<rparr>)
           | (Some e, fs) \<Rightarrow> (Some (PathError ''mkdir'' name e), w1\<lparr>files := fs\<rparr>)))"

definition os_Rename :: "string \<Rightarrow> string \<Rightarrow> world \<Rightarrow> oserror option \<times> world" where
  "os_Rename oldname newname w =
     (let w1 = w\<lparr>calls := calls w @ [Rename oldname newname]\<rparr> in
      case faults w (Rename oldname newname) of
        Some e \<Rightarrow> (Some (LinkError ''rename'' oldname newname e), w1)
      | None \<Rightarrow>
          (case rename oldname newname (files w) of
             (None, fs) \<Rightarrow> (None, w1\<lparr>files := fs\<rparr>)
           | (Some e, fs) \<Rightarrow> (Some (LinkError ''rename'' oldname newname e), w1\<lparr>files := fs\<rparr>)))"

definition os_OpenFile ::
  "string \<Rightarrow> oflag list \<Rightarrow> nat \<Rightarrow> world \<Rightarrow> (oserror + osfile) \<times> world" where
  "os_OpenFile name flag perm w =
     (let w1 = w\<lparr>calls := calls w @ [OpenFile name flag perm]\<rparr> in
      case faults w (OpenFile name flag perm) of
        Some e \<Rightarrow> (Inl (PathError ''open'' name e), w1)
      | None \<Rightarrow>
          (case openFile name flag (files w) of
             (Inr f, fs) \<Rightarrow> (Inr f, w1\<lparr>files := fs\<rparr>)
           | (Inl e, fs) \<Rightarrow> (Inl (PathError ''open'' name e), w1\<lparr>files := fs\<rparr>)))"

definition file_WriteString :: "osfile \<Rightarrow> string \<Rightarrow> world \<Rightarrow> oserror option \<times> world" where
  "file_WriteString f s w =
     (let w1 = w\<lparr>calls := calls w @ [WriteString (fname f) s]\<rparr> in
      case faults w (WriteString (fname f) s) of
        Some e \<Rightarrow> (Some (PathError ''write'' (fname f) e), w1)
      | None \<Rightarrow>
          (case writeString f s (files w) of
             (None, fs) \<Rightarrow> (None, w1\<lparr>files := fs\<rparr>)
           | (Some e, fs) \<Rightarrow> (Some (PathError ''write'' (fname f) e), w1\<lparr>files := fs\<rparr>)))"

definition file_Close :: "osfile \<Rightarrow> world \<Rightarrow> world" where
  "file_Close f w = w\<lparr>calls := calls w @ [Close (fname f)]\<rparr>"

text \<open>The message's \<^verbatim>\<open>Ack\<close> and \<^verbatim>\<open>Nak\<close>, and the logger's \<^verbatim>\<open>Error\<close> and \<^verbatim>\<open>Debug\<close>.\<close>

definition msg_Ack :: "world \<Rightarrow> world" where
  "msg_Ack w = w\<lparr>acks := acks w @ [Ack]\<rparr>"

definition msg_Nak :: "world \<Rightarrow> world" where
  "msg_Nak w = w\<lparr>acks := acks w @ [Nak]\<rparr>"

definition logger_Error :: "oserror \<Rightarrow> world \<Rightarrow> world" where
  "logger_Error e w = w\<lparr>logged := logged w @ [LogError e]\<rparr>"

definition logger_Debug :: "string \<Rightarrow> string \<Rightarrow> string \<Rightarrow> world \<Rightarrow> world" where
  "logger_Debug m fileName archiveName w =
     w\<lparr>logged := logged w @ [LogDebug m fileName archiveName]\<rparr>"

subsection \<open>The uploader\<close>

text \<open>
  The \<^verbatim>\<open>Uploader\<close> struct, without its handles to the NATS connector and the logger
  (their effects are in the \<^typ>\<open>world\<close>), and the message with its payload.
\<close>

record uploader =
  scope :: string
  domain :: string
  datastore :: string
  archivestore :: string
  hostname :: string

record msg =
  Data :: string

text \<open>
  A run of the handler either returns, leaving a world behind, or panics: indexing a
  slice out of range is a run-time panic in Go, and nothing in the handler or in the NATS
  client that calls it recovers from one.
\<close>

datatype 'a run = Panic | Done 'a

text \<open>
  \<^verbatim>\<open>updateIndex\<close>: the line is \<^verbatim>\<open>fmt.Sprintf("%s:%s\n", seq, archiveName)\<close>; the index
  file is \<^verbatim>\<open>archive.index\<close> in \<^verbatim>\<open>path.Dir(filename)\<close>, opened with
  \<^verbatim>\<open>O_APPEND|O_CREATE|O_WRONLY\<close> and mode 0644 (420). The deferred \<^verbatim>\<open>Close\<close> runs on
  both ways out once the file is open; its own error is dropped.
\<close>

definition updateIndex ::
  "uploader \<Rightarrow> string \<Rightarrow> string \<Rightarrow> string \<Rightarrow> world \<Rightarrow> oserror option \<times> world" where
  "updateIndex u filename archiveName seq w =
     (let data = seq @ '':'' @ archiveName @ [CHR 0x0A];
          dstDir = path_Dir filename;
          indexFilename = path_Join [dstDir, ''archive.index'']
      in case os_OpenFile indexFilename [O_APPEND, O_CREATE, O_WRONLY] 420 w of
           (Inl err, w1) \<Rightarrow> (Some err, w1)
         | (Inr indexFile, w1) \<Rightarrow>
             (case file_WriteString indexFile data w1 of
                (err, w2) \<Rightarrow> (err, file_Close indexFile w2)))"

text \<open>
  The archive name of a file, as \<^verbatim>\<open>msgHandler\<close> derives it (line 153): every instance
  of the cleaned datastore root in the file name is replaced by the cleaned archivestore
  root.
\<close>

definition archiveName_of :: "uploader \<Rightarrow> string \<Rightarrow> string" where
  "archiveName_of u filename =
     strings_ReplaceAll filename (path_Join [datastore u]) (path_Join [archivestore u])"

text \<open>
  \<^verbatim>\<open>msgHandler\<close>: \<^verbatim>\<open>mdata[1]\<close> panics when \<^verbatim>\<open>SplitN\<close> returned a single element. The
  directory is made with mode 0750 (488).
\<close>

definition msgHandler :: "uploader \<Rightarrow> msg \<Rightarrow> world \<Rightarrow> world run" where
  "msgHandler u m w =
     (let mdata = strings_SplitN (Data m) '':'' 2 in
      if length mdata \<le> 1 then Panic
      else
        (let filename = mdata ! 1;
             archiveName = archiveName_of u filename
         in case os_MkdirAll (path_Dir archiveName) 488 w of
              (Some err, w1) \<Rightarrow> Done (logger_Error err (msg_Nak w1))
            | (None, w1) \<Rightarrow>
                (let w2 = logger_Debug ''Archive file'' filename archiveName w1 in
                 case os_Rename filename archiveName w2 of
                   (Some err, w3) \<Rightarrow> Done (logger_Error err (msg_Nak w3))
                 | (None, w3) \<Rightarrow>
                     (case updateIndex u filename archiveName (mdata ! 0) w3 of
                        (Some err, w4) \<Rightarrow> Done (logger_Error err (msg_Nak w4))
                      | (None, w4) \<Rightarrow> Done (msg_Ack w4)))))"

subsection \<open>Names for what the statements speak about\<close>

text \<open>
  The line and the index file name that \<^verbatim>\<open>updateIndex\<close> computes (its \<^verbatim>\<open>data\<close> and
  \<^verbatim>\<open>indexFilename\<close>), and the bytes of the file at a name of the table (none when there
  is no file there).
\<close>

definition indexLine :: "string \<Rightarrow> string \<Rightarrow> string" where
  "indexLine seq archiveName = seq @ '':'' @ archiveName @ [CHR 0x0A]"

definition indexFilename_of :: "string \<Rightarrow> string" where
  "indexFilename_of filename = path_Join [path_Dir filename, ''archive.index'']"

definition content :: "(string \<Rightarrow> node option) \<Rightarrow> string \<Rightarrow> string" where
  "content fs name = (case fs name of Some (File c) \<Rightarrow> c | _ \<Rightarrow> [])"

text \<open>
  A second description of the replacement, in the words of the statement about path
  derivation and independent of the loop of \<^verbatim>\<open>strings.ReplaceAll\<close>: the string is read
  from left to right; wherever the old string begins at the current position it is
  replaced by the new one and reading continues behind it, every other character is
  kept. With an empty old string nothing is replaced.
\<close>

function each_occurrence_replaced :: "string \<Rightarrow> string \<Rightarrow> string \<Rightarrow> string" where
  "each_occurrence_replaced old new s =
     (if old = [] \<or> s = [] then s
      else if prefix old s then new @ each_occurrence_replaced old new (drop (length old) s)
      else hd s # each_occurrence_replaced old new (tl s))"
  by pat_completeness auto
termination
  by (relation "measure (\<lambda>(old, new, s). length s)") auto


subsection \<open>Example configuration and worlds\<close>

text \<open>
  The default configuration (\<^verbatim>\<open>DefaultDomain\<close>, \<^verbatim>\<open>DefaultDatastore\<close>,
  \<^verbatim>\<open>DefaultArchivestore\<close>), and a small file system: a data file under the datastore,
  an empty archivestore, a second data file whose path repeats the root's name, and a
  file outside both trees. Nothing fails for outside reasons in \<open>w0\<close>.
\<close>

definition u0 :: uploader where
  "u0 = \<lparr>scope = ''uploader'', domain = ''onglai-msg'', datastore = ''/datastore'',
         archivestore = ''/archivestore'', hostname = ''host''\<rparr>"

definition fs0 :: "string \<Rightarrow> node option" where
  "fs0 = map_of
     [(''/'', Dir),
      (''/datastore'', Dir),
      (''/datastore/a'', Dir),
      (''/datastore/a/b'', Dir),
      (''/datastore/a/b/file.dat'', File ''DATA''),
      (''/datastore/a/datastore'', Dir),
      (''/datastore/a/datastore/f'', File ''F''),
      (''/archivestore'', Dir),
      (''/tmp'', Dir),
      (''/tmp/f.dat'', File ''T'')]"

definition w0 :: world where
  "w0 = \<lparr>files = fs0, faults = (\<lambda>_. None), calls = [], acks = [], logged = []\<rparr>"

text \<open>The job of the spec's scenario: payload \<^verbatim>\<open>42:/datastore/a/b/file.dat\<close>.\<close>

definition job_file :: string where
  "job_file = ''/datastore/a/b/file.dat''"

definition job_msg :: msg where
  "job_msg = \<lparr>Data = ''42'' @ '':'' @ job_file\<rparr>"

text \<open>
  The same world, except that creating the destination directory of the scenario's job
  is denied.
\<close>

definition w_denied :: world where
  "w_denied = w0\<lparr>faults :=
     (\<lambda>c. if c = MkdirAll ''/archivestore/a/b'' 488 then Some EACCES else None)\<rparr>"



definition empty_seq_msg :: msg where
  "empty_seq_msg = \<lparr>Data = '':'' @ job_file\<rparr>"

text \<open>The world \<open>w0\<close> with a file already at the scenario's archive path.\<close>

definition fs_occupied :: "string \<Rightarrow> node option" where
  "fs_occupied = fs0
     (''/archivestore/a'' \<mapsto> Dir,
      ''/archivestore/a/b'' \<mapsto> Dir,
      ''/archivestore/a/b/file.dat'' \<mapsto> File ''OLD'')"


text \<open>
  Two calls are the same up to the data written when they are equal, or both write to
  the same file.
\<close>

fun same_call :: "oscall \<Rightarrow> oscall \<Rightarrow> bool" where
  "same_call (WriteString k d) (WriteString k' d') = (k = k')"
| "same_call c c' = (c = c')"

text \<open>The world \<open>w0\<close>, except that opening the scenario's ledger file is denied.\<close>

definition w_ledger_denied :: world where
  "w_ledger_denied = w0\<lparr>faults :=
     (\<lambda>c. if c = OpenFile ''/datastore/a/b/archive.index'' [O_APPEND, O_CREATE, O_WRONLY] 420
          then Some EACCES else None)\<rparr>"



text \<open>The rests of two source paths, a job for a file that does not exist, and the archive
  path of the scenario's job.\<close>

definition repeated_sfx :: string where
  "repeated_sfx = ''/a/datastore/f''"

definition plain_sfx :: string where
  "plain_sfx = ''/a/b/file.dat''"



definition archive_file :: string where
  "archive_file = ''/archivestore/a/b/file.dat''"

section \<open>Properties\<close>

declare replace_loop.simps [simp del] count_loop.simps [simp del] rune_count.simps [simp del]
  replace_empty.simps [simp del] mkdirAll.simps [simp del]
  each_occurrence_replaced.simps [simp del]

subsection \<open>Splitting and replacing\<close>

lemma strings_Index_None_iff: "strings_Index s sub = None \<longleftrightarrow> \<not> sublist sub s"
proof (induction s)
  case Nil
  then show ?case by simp
next
  case (Cons c cs)
  then show ?case
    by (auto simp: sublist_Cons_right)
qed

lemma strings_Index_prefix: "prefix sub s \<Longrightarrow> strings_Index s sub = Some 0"
  by (cases s) simp_all

lemma strings_Index_first:
  "c \<notin> set seq \<Longrightarrow> strings_Index (seq @ c # rest) [c] = Some (length seq)"
  by (induction seq) auto

lemma strings_Index_absent: "c \<notin> set s \<Longrightarrow> strings_Index s [c] = None"
  by (induction s) auto

lemma SplitN_no_sep: "c \<notin> set s \<Longrightarrow> strings_SplitN s [c] 2 = [s]"
  by (cases s)
    (auto simp: strings_SplitN_def strings_Index_absent Let_def numeral_2_eq_2 split: if_splits)

lemma SplitN_sep: "c \<notin> set seq \<Longrightarrow> strings_SplitN (seq @ c # rest) [c] 2 = [seq, rest]"
  by (simp add: strings_SplitN_def strings_Index_first Let_def)

lemma replace_loop_absent:
  assumes "\<not> sublist old s"
  shows "replace_loop s old new = s"
proof -
  from assms have "strings_Index s old = None"
    by (simp add: strings_Index_None_iff)
  then show ?thesis
    by (subst replace_loop.simps) simp
qed

lemma replace_loop_prefix:
  "old \<noteq> [] \<Longrightarrow> replace_loop (old @ sfx) old new = new @ replace_loop sfx old new"
  by (subst replace_loop.simps) (simp add: strings_Index_prefix)


lemma ReplaceAll_prefix:
  "old \<noteq> [] \<Longrightarrow>
   strings_ReplaceAll (old @ sfx) old new = new @ strings_ReplaceAll sfx old new"
  by (auto simp: strings_ReplaceAll_def replace_loop_prefix)

subsection \<open>Payloads without a separator\<close>

text \<open>
  Claim C2 says that a payload with no \<open>:\<close> is classified as malformed, negatively
  acknowledged, and that the handler never crashes. The code does not check the length
  of the split: for every such payload \<^verbatim>\<open>mdata[1]\<close> is out of range and the handler
  panics, before any acknowledgment and before any file-system call.
\<close>

theorem msgHandler_no_separator_panics:
  "CHR '':'' \<notin> set (Data m) \<Longrightarrow> msgHandler u m w = Panic"
  by (simp add: msgHandler_def SplitN_no_sep)

theorem msgHandler_no_separator_panics_witness:
  "CHR '':'' \<notin> set (Data \<lparr>Data = ''bad-payload-no-colon''\<rparr>)
   \<and> msgHandler u0 \<lparr>Data = ''bad-payload-no-colon''\<rparr> w0 = Panic"
  using msgHandler_no_separator_panics [of "\<lparr>Data = ''bad-payload-no-colon''\<rparr>" u0 w0]
  by simp

text \<open>
  Claim C5 says that every invocation resolves to exactly one acknowledgment decision
  and that no per-job error crashes the process. For the malformed payload of the
  spec's own scenario the handler panics, whatever the configuration and the world: no
  world is returned, so neither \<^verbatim>\<open>Ack\<close> nor \<^verbatim>\<open>Nak\<close> was called.
\<close>

theorem msgHandler_bad_payload_no_decision:
  "msgHandler u \<lparr>Data = ''bad-payload-no-colon''\<rparr> w = Panic
   \<and> (\<nexists>w'. msgHandler u \<lparr>Data = ''bad-payload-no-colon''\<rparr> w = Done w')"
proof -
  have "strings_SplitN ''bad-payload-no-colon'' '':'' 2 = [''bad-payload-no-colon'']"
    by (rule SplitN_no_sep) simp
  then have "msgHandler u \<lparr>Data = ''bad-payload-no-colon''\<rparr> w = Panic"
    by (simp add: msgHandler_def)
  then show ?thesis by simp
qed

subsection \<open>Path derivation\<close>

text \<open>
  Claim C3 says that for a source path with the datastore root as leading prefix the
  archive path is the source path with exactly that prefix replaced, the rest preserved
  character for character even if the root's string occurs in it again. The code
  replaces every instance: a later instance of the root is replaced as well, and the
  handler moves the file to the path so derived.
\<close>

theorem archiveName_of_repeated_root_counterexample:
  "prefix (datastore u0) ''/datastore/a/datastore/f''
   \<and> archiveName_of u0 (datastore u0 @ ''/a/datastore/f'') = ''/archivestore/a/archivestore/f''
   \<and> archiveName_of u0 (datastore u0 @ ''/a/datastore/f'') \<noteq> archivestore u0 @ ''/a/datastore/f''
   \<and> (case msgHandler u0 \<lparr>Data = ''9:/datastore/a/datastore/f''\<rparr> w0 of
        Panic \<Rightarrow> False
      | Done w' \<Rightarrow>
          acks w' = [Ack]
          \<and> files w' ''/archivestore/a/archivestore/f'' = Some (File ''F'')
          \<and> files w' ''/archivestore/a/datastore/f'' = None)"
  by code_simp

text \<open>
  The loop of \<^verbatim>\<open>strings.ReplaceAll\<close> computes the left-to-right replacement of each
  occurrence, and it changes a string in which the old string occurs unless the new
  string is the old one.
\<close>

lemma replace_loop_scan:
  "old \<noteq> [] \<Longrightarrow> replace_loop s old new = each_occurrence_replaced old new s"
proof (induction old new s rule: each_occurrence_replaced.induct)
  case (1 old new s)
  show ?case
  proof (cases "s = []")
    case True
    with "1.prems" show ?thesis
      by (subst replace_loop.simps, subst each_occurrence_replaced.simps) simp
  next
    case ne: False
    show ?thesis
    proof (cases "prefix old s")
      case True
      with "1.IH"(1) "1.prems" ne
      have "replace_loop (drop (length old) s) old new
              = each_occurrence_replaced old new (drop (length old) s)"
        by simp
      with True "1.prems" ne show ?thesis
        by (subst replace_loop.simps, subst each_occurrence_replaced.simps)
          (simp add: strings_Index_prefix)
    next
      case False
      from ne obtain c cs where s: "s = c # cs" by (cases s) auto
      from "1.IH"(2) "1.prems" ne False s
      have ih: "replace_loop cs old new = each_occurrence_replaced old new cs" by simp
      have "replace_loop (c # cs) old new = c # replace_loop cs old new"
      proof (cases "strings_Index cs old")
        case None
        with False s "1.prems" show ?thesis
          by (subst replace_loop.simps, subst (2) replace_loop.simps) simp
      next
        case (Some j)
        with False s "1.prems" show ?thesis
          by (subst replace_loop.simps, subst (2) replace_loop.simps) simp
      qed
      with ih False s "1.prems" show ?thesis
        by (subst each_occurrence_replaced.simps) simp
    qed
  qed
qed

lemma each_occurrence_replaced_same':
  "new = old \<Longrightarrow> each_occurrence_replaced old new s = s"
proof (induction old new s rule: each_occurrence_replaced.induct)
  case (1 old new s)
  show ?case
  proof (cases "old = [] \<or> s = []")
    case True
    then show ?thesis by (subst each_occurrence_replaced.simps) simp
  next
    case False
    show ?thesis
    proof (cases "prefix old s")
      case True
      with "1.IH"(1) "1.prems" False
      have "each_occurrence_replaced old new (drop (length old) s) = drop (length old) s"
        by simp
      moreover from True have "old @ drop (length old) s = s"
        by (auto simp: prefix_def)
      ultimately show ?thesis using True False "1.prems"
        by (subst each_occurrence_replaced.simps) simp
    next
      case np: False
      with "1.IH"(2) "1.prems" False have "each_occurrence_replaced old new (tl s) = tl s"
        by simp
      with np False show ?thesis
        by (subst each_occurrence_replaced.simps) simp
    qed
  qed
qed

lemma each_occurrence_replaced_same: "each_occurrence_replaced old old s = s"
  by (rule each_occurrence_replaced_same') simp

lemma ReplaceAll_scan:
  "old \<noteq> [] \<Longrightarrow> strings_ReplaceAll s old new = each_occurrence_replaced old new s"
  by (simp add: strings_ReplaceAll_def replace_loop_scan each_occurrence_replaced_same)

lemma strings_Index_split:
  "strings_Index s old = Some j \<Longrightarrow> s = take j s @ old @ drop (j + length old) s"
proof (induction s arbitrary: j)
  case Nil
  then show ?case by (simp split: if_splits)
next
  case (Cons c cs)
  show ?case
  proof (cases "prefix old (c # cs)")
    case True
    with Cons.prems have "j = 0" by simp
    with True show ?thesis by (auto simp: prefix_def)
  next
    case False
    with Cons.prems obtain k where k: "strings_Index cs old = Some k" "j = Suc k" by auto
    from Cons.IH [OF k(1)] k(2) show ?thesis by simp
  qed
qed

lemma replace_loop_length:
  "length (replace_loop s old new) + count_loop s old * length old
     = length s + count_loop s old * length new"
proof (induction s old new rule: replace_loop.induct)
  case (1 s old new)
  show ?case
  proof (cases "old = []")
    case True
    then show ?thesis
      by (subst replace_loop.simps, subst count_loop.simps, subst (2) count_loop.simps) simp
  next
    case ne: False
    show ?thesis
    proof (cases "strings_Index s old")
      case None
      with ne show ?thesis
        by (subst replace_loop.simps, subst count_loop.simps, subst (2) count_loop.simps) simp
    next
      case (Some j)
      from strings_Index_bound [OF Some] have b: "j + length old \<le> length s" .
      from "1.IH" [OF ne Some]
      have ih: "length (replace_loop (drop (j + length old) s) old new)
                  + count_loop (drop (j + length old) s) old * length old
                = length (drop (j + length old) s)
                  + count_loop (drop (j + length old) s) old * length new" .
      have r: "replace_loop s old new
                 = take j s @ new @ replace_loop (drop (j + length old) s) old new"
        using ne Some by (subst replace_loop.simps) simp
      have c: "count_loop s old = Suc (count_loop (drop (j + length old) s) old)"
        using ne Some by (subst count_loop.simps) simp
      from ih b show ?thesis
        unfolding r c by simp
    qed
  qed
qed

lemma replace_loop_changes:
  assumes "old \<noteq> []" and "old \<noteq> new" and "sublist old s"
  shows "replace_loop s old new \<noteq> s"
proof
  assume eq: "replace_loop s old new = s"
  from assms(3) obtain j where j: "strings_Index s old = Some j"
    using strings_Index_None_iff [of s old] by (cases "strings_Index s old") auto
  have c: "count_loop s old = Suc (count_loop (drop (j + length old) s) old)"
    using assms(1) j by (subst count_loop.simps) simp
  from replace_loop_length [of s old new] eq
  have "count_loop s old * length old = count_loop s old * length new" by simp
  then have len: "length old = length new"
    unfolding c by (simp only: Suc_mult_cancel1)
  have r: "replace_loop s old new
             = take j s @ new @ replace_loop (drop (j + length old) s) old new"
    using assms(1) j by (subst replace_loop.simps) simp
  from strings_Index_split [OF j] eq r
  have "take j s @ new @ replace_loop (drop (j + length old) s) old new
          = take j s @ old @ drop (j + length old) s"
    by simp
  with len have "new = old" by simp
  with assms(2) show False by simp
qed

text \<open>
  Claim C3, amended: when the cleaned datastore root is not empty and leads the source
  path, the archive path is the cleaned archivestore root followed by the rest of the
  path in which each occurrence of the cleaned datastore root, read from left to right,
  is replaced by the cleaned archivestore root. The rest is preserved character for
  character if and only if the cleaned datastore root does not occur in it or the two
  cleaned roots are equal.
\<close>

theorem archiveName_of_prefix:
  assumes "path_Join [datastore u] \<noteq> []"
  shows "archiveName_of u (path_Join [datastore u] @ sfx)
           = path_Join [archivestore u]
               @ each_occurrence_replaced (path_Join [datastore u]) (path_Join [archivestore u]) sfx
         \<and> ((archiveName_of u (path_Join [datastore u] @ sfx) = path_Join [archivestore u] @ sfx)
              = (\<not> sublist (path_Join [datastore u]) sfx
                   \<or> path_Join [datastore u] = path_Join [archivestore u]))"
proof -
  let ?d = "path_Join [datastore u]" and ?a = "path_Join [archivestore u]"
  have first: "archiveName_of u (?d @ sfx) = ?a @ strings_ReplaceAll sfx ?d ?a"
    using assms by (simp add: archiveName_of_def ReplaceAll_prefix)
  have "(strings_ReplaceAll sfx ?d ?a = sfx) = (\<not> sublist ?d sfx \<or> ?d = ?a)"
  proof (cases "?d = ?a")
    case True
    then show ?thesis by (simp add: strings_ReplaceAll_def)
  next
    case False
    with assms show ?thesis
      using replace_loop_changes [of ?d ?a sfx] replace_loop_absent [of ?d sfx ?a]
      by (auto simp: strings_ReplaceAll_def)
  qed
  with first assms show ?thesis
    by (simp add: ReplaceAll_scan)
qed

theorem archiveName_of_prefix_witness:
  "path_Join [datastore u0] \<noteq> []
   \<and> \<not> sublist (path_Join [datastore u0]) plain_sfx
   \<and> archiveName_of u0 (path_Join [datastore u0] @ plain_sfx)
       = path_Join [archivestore u0] @ plain_sfx
   \<and> sublist (path_Join [datastore u0]) repeated_sfx
   \<and> path_Join [datastore u0] \<noteq> path_Join [archivestore u0]
   \<and> archiveName_of u0 (path_Join [datastore u0] @ repeated_sfx)
       = ''/archivestore/a/archivestore/f''
   \<and> archiveName_of u0 (path_Join [datastore u0] @ repeated_sfx)
       \<noteq> path_Join [archivestore u0] @ repeated_sfx"
proof -
  have h: "path_Join [datastore u0] \<noteq> []" by code_simp
  have n1: "\<not> sublist (path_Join [datastore u0]) plain_sfx" by code_simp
  have n2: "sublist (path_Join [datastore u0]) repeated_sfx" by code_simp
  have n3: "path_Join [datastore u0] \<noteq> path_Join [archivestore u0]" by code_simp
  have ev: "path_Join [archivestore u0]
              @ each_occurrence_replaced (path_Join [datastore u0]) (path_Join [archivestore u0])
                  repeated_sfx
            = ''/archivestore/a/archivestore/f''"
    by code_simp
  note p = archiveName_of_prefix [OF h, of plain_sfx]
    and r = archiveName_of_prefix [OF h, of repeated_sfx]
  from p [THEN conjunct2] n1
  have e1: "archiveName_of u0 (path_Join [datastore u0] @ plain_sfx)
              = path_Join [archivestore u0] @ plain_sfx"
    by (simp only: simp_thms)
  from r [THEN conjunct1] ev
  have e2: "archiveName_of u0 (path_Join [datastore u0] @ repeated_sfx)
              = ''/archivestore/a/archivestore/f''"
    by (rule trans)
  from r [THEN conjunct2] n2 n3
  have e3: "archiveName_of u0 (path_Join [datastore u0] @ repeated_sfx)
              \<noteq> path_Join [archivestore u0] @ repeated_sfx"
    by (simp only: simp_thms)
  from h n1 e1 n2 n3 e2 e3 show ?thesis by (intro conjI)
qed

subsection \<open>The calls and what they leave behind\<close>

lemma msgHandler_payload:
  assumes "Data m = seq @ '':'' @ filename" and "CHR '':'' \<notin> set seq"
  shows "msgHandler u m w =
    (case os_MkdirAll (path_Dir (archiveName_of u filename)) 488 w of
       (Some err, w1) \<Rightarrow> Done (logger_Error err (msg_Nak w1))
     | (None, w1) \<Rightarrow>
         (case os_Rename filename (archiveName_of u filename)
                 (logger_Debug ''Archive file'' filename (archiveName_of u filename) w1) of
            (Some err, w3) \<Rightarrow> Done (logger_Error err (msg_Nak w3))
          | (None, w3) \<Rightarrow>
              (case updateIndex u filename (archiveName_of u filename) seq w3 of
                 (Some err, w4) \<Rightarrow> Done (logger_Error err (msg_Nak w4))
               | (None, w4) \<Rightarrow> Done (msg_Ack w4))))"
proof -
  from assms have "strings_SplitN (Data m) '':'' 2 = [seq, filename]"
    using SplitN_sep [of "CHR '':''" seq filename] by simp
  then show ?thesis
    by (auto simp: msgHandler_def Let_def split: prod.splits option.splits)
qed

lemma mkdir_preserves: "mkdir name fs = (r, fs') \<Longrightarrow> fs p = Some n \<Longrightarrow> fs' p = Some n"
  by (auto simp: mkdir_def Let_def split: if_splits option.splits node.splits)

lemma mkdirAll_preserves: "mkdirAll name fs = (r, fs') \<Longrightarrow> fs p = Some n \<Longrightarrow> fs' p = Some n"
proof (induction name fs arbitrary: r fs' rule: mkdirAll.induct)
  case (1 name fs)
  show ?case
  proof (cases "stat fs name")
    case (Inl e0)
    show ?thesis
    proof (cases "parent_of name \<noteq> []")
      case True
      obtain r1 fs1 where p: "mkdirAll (parent_of name) fs = (r1, fs1)" by force
      from "1.IH" [OF Inl True p] "1.prems"(2) have fs1: "fs1 p = Some n" by simp
      show ?thesis
      proof (cases r1)
        case None
        obtain r2 fs2 where m: "mkdir name fs1 = (r2, fs2)" by force
        from mkdir_preserves [OF m fs1] have "fs2 p = Some n" .
        with "1.prems"(1) Inl True p None m show ?thesis
          by (subst (asm) mkdirAll.simps) (auto split: option.splits node.splits sum.splits)
      next
        case (Some e)
        with "1.prems"(1) Inl True p fs1 show ?thesis
          by (subst (asm) mkdirAll.simps) auto
      qed
    next
      case False
      obtain r2 fs2 where m: "mkdir name fs = (r2, fs2)" by force
      from mkdir_preserves [OF m "1.prems"(2)] have "fs2 p = Some n" .
      with "1.prems"(1) Inl False m show ?thesis
        by (subst (asm) mkdirAll.simps) (auto split: option.splits node.splits sum.splits)
    qed
  next
    case (Inr a)
    with "1.prems" show ?thesis
      by (subst (asm) mkdirAll.simps) (auto split: node.splits)
  qed
qed

lemma os_MkdirAll_frame:
  "os_MkdirAll name perm w = (r, w') \<Longrightarrow>
     calls w' = calls w @ [MkdirAll name perm] \<and> acks w' = acks w
     \<and> logged w' = logged w \<and> faults w' = faults w"
  by (auto simp: os_MkdirAll_def Let_def split: option.splits prod.splits)

lemma os_MkdirAll_preserves:
  "os_MkdirAll name perm w = (r, w') \<Longrightarrow> files w p = Some n \<Longrightarrow> files w' p = Some n"
  by (auto simp: os_MkdirAll_def Let_def split: option.splits prod.splits dest: mkdirAll_preserves)

lemma os_Rename_frame:
  "os_Rename a b w = (r, w') \<Longrightarrow>
     calls w' = calls w @ [Rename a b] \<and> acks w' = acks w
     \<and> logged w' = logged w \<and> faults w' = faults w"
  by (auto simp: os_Rename_def Let_def split: option.splits prod.splits)

lemma os_OpenFile_frame:
  "os_OpenFile name flag perm w = (r, w') \<Longrightarrow>
     calls w' = calls w @ [OpenFile name flag perm] \<and> acks w' = acks w
     \<and> logged w' = logged w \<and> faults w' = faults w"
  by (auto simp: os_OpenFile_def Let_def split: option.splits prod.splits sum.splits)

lemma file_WriteString_frame:
  "file_WriteString f s w = (r, w') \<Longrightarrow>
     calls w' = calls w @ [WriteString (fname f) s] \<and> acks w' = acks w
     \<and> logged w' = logged w \<and> faults w' = faults w"
  by (auto simp: file_WriteString_def Let_def split: option.splits prod.splits)

lemma os_OpenFile_ok:
  assumes "os_OpenFile name flag perm w = (Inr f, w')" and "O_WRONLY \<in> set flag"
  shows "fname f = path_Clean name \<and> fflag f = flag
         \<and> files w' (path_Clean name) = Some (File (content (files w) (path_Clean name)))
         \<and> (\<forall>p. p \<noteq> path_Clean name \<longrightarrow> files w' p = files w p)"
  using assms
  by (auto simp: os_OpenFile_def openFile_def content_def Let_def
      split: option.splits prod.splits sum.splits if_splits node.splits)

lemma file_WriteString_ok:
  assumes "file_WriteString f s w = (None, w')" and "files w (fname f) = Some (File c)"
    and "O_APPEND \<in> set (fflag f)"
  shows "files w' (fname f) = Some (File (c @ s))
         \<and> (\<forall>p. p \<noteq> fname f \<longrightarrow> files w' p = files w p)"
  using assms
  by (auto simp: file_WriteString_def writeString_def Let_def
      split: option.splits prod.splits if_splits node.splits)

lemma bookkeeping [simp]:
  "acks (msg_Nak w) = acks w @ [Nak]" "acks (msg_Ack w) = acks w @ [Ack]"
  "acks (logger_Error e w) = acks w" "acks (logger_Debug a b c w) = acks w"
  "calls (msg_Nak w) = calls w" "calls (msg_Ack w) = calls w"
  "calls (logger_Error e w) = calls w" "calls (logger_Debug a b c w) = calls w"
  "files (msg_Nak w) = files w" "files (msg_Ack w) = files w"
  "files (logger_Error e w) = files w" "files (logger_Debug a b c w) = files w"
  "faults (msg_Nak w) = faults w" "faults (msg_Ack w) = faults w"
  "faults (logger_Error e w) = faults w" "faults (logger_Debug a b c w) = faults w"
  by (simp_all add: msg_Nak_def msg_Ack_def logger_Error_def logger_Debug_def)


lemma updateIndex_cases:
  assumes "updateIndex u filename archiveName seq w = (err, w')"
  obtains (open_failed) e w1 where
      "os_OpenFile (indexFilename_of filename) [O_APPEND, O_CREATE, O_WRONLY] 420 w = (Inl e, w1)"
      "err = Some e" "w' = w1"
  | (opened) f w1 w2 where
      "os_OpenFile (indexFilename_of filename) [O_APPEND, O_CREATE, O_WRONLY] 420 w = (Inr f, w1)"
      "file_WriteString f (indexLine seq archiveName) w1 = (err, w2)"
      "w' = file_Close f w2"
  using assms
  by (auto simp: updateIndex_def indexFilename_of_def indexLine_def Let_def
      split: prod.splits sum.splits)

lemma updateIndex_frame:
  assumes "updateIndex u filename archiveName seq w = (err, w')"
  shows "acks w' = acks w \<and> logged w' = logged w \<and> faults w' = faults w
    \<and> (calls w' = calls w @ [OpenFile (indexFilename_of filename) [O_APPEND, O_CREATE, O_WRONLY] 420]
       \<or> calls w' = calls w @
            [OpenFile (indexFilename_of filename) [O_APPEND, O_CREATE, O_WRONLY] 420,
             WriteString (path_Clean (indexFilename_of filename)) (indexLine seq archiveName),
             Close (path_Clean (indexFilename_of filename))])"
  using assms
proof (cases rule: updateIndex_cases)
  case (open_failed e w1)
  then show ?thesis by (auto dest: os_OpenFile_frame)
next
  case (opened f w1 w2)
  from os_OpenFile_ok [OF opened(1)] have "fname f = path_Clean (indexFilename_of filename)"
    by simp
  with opened os_OpenFile_frame [OF opened(1)] file_WriteString_frame [OF opened(2)]
  show ?thesis by (simp add: file_Close_def)
qed

lemma updateIndex_ok:
  assumes "updateIndex u filename archiveName seq w = (None, w')"
  shows "calls w' = calls w @
            [OpenFile (indexFilename_of filename) [O_APPEND, O_CREATE, O_WRONLY] 420,
             WriteString (path_Clean (indexFilename_of filename)) (indexLine seq archiveName),
             Close (path_Clean (indexFilename_of filename))]
    \<and> files w' (path_Clean (indexFilename_of filename))
        = Some (File (content (files w) (path_Clean (indexFilename_of filename))
                        @ indexLine seq archiveName))
    \<and> (\<forall>p. p \<noteq> path_Clean (indexFilename_of filename) \<longrightarrow> files w' p = files w p)"
  using assms
proof (cases rule: updateIndex_cases)
  case (open_failed e w1)
  then show ?thesis by simp
next
  case (opened f w1 w2)
  let ?k = "path_Clean (indexFilename_of filename)"
  from os_OpenFile_ok [OF opened(1)]
  have f: "fname f = ?k" "fflag f = [O_APPEND, O_CREATE, O_WRONLY]"
    and w1: "files w1 ?k = Some (File (content (files w) ?k))"
      "\<forall>p. p \<noteq> ?k \<longrightarrow> files w1 p = files w p"
    by simp_all
  from file_WriteString_ok [OF opened(2), of "content (files w) ?k"] f w1
  have w2: "files w2 ?k = Some (File (content (files w) ?k @ indexLine seq archiveName))"
    "\<forall>p. p \<noteq> ?k \<longrightarrow> files w2 p = files w p"
    by simp_all
  from f opened os_OpenFile_frame [OF opened(1)] file_WriteString_frame [OF opened(2)]
  have "calls w' = calls w @
            [OpenFile (indexFilename_of filename) [O_APPEND, O_CREATE, O_WRONLY] 420,
             WriteString ?k (indexLine seq archiveName), Close ?k]"
    by (simp add: file_Close_def)
  with w2 opened(3) show ?thesis by (simp add: file_Close_def)
qed


lemma msgHandler_acked:
  assumes "Data m = seq @ '':'' @ filename" and "CHR '':'' \<notin> set seq"
    and "msgHandler u m w = Done w'" and "acks w' = acks w @ [Ack]"
  shows "\<exists>w1 w3.
      os_MkdirAll (path_Dir (archiveName_of u filename)) 488 w = (None, w1)
    \<and> os_Rename filename (archiveName_of u filename)
        (logger_Debug ''Archive file'' filename (archiveName_of u filename) w1) = (None, w3)
    \<and> files w' (path_Clean (indexFilename_of filename))
        = Some (File (content (files w3) (path_Clean (indexFilename_of filename))
                        @ indexLine seq (archiveName_of u filename)))
    \<and> (\<forall>p. p \<noteq> path_Clean (indexFilename_of filename) \<longrightarrow> files w' p = files w3 p)
    \<and> calls w' = calls w @
        [MkdirAll (path_Dir (archiveName_of u filename)) 488,
         Rename filename (archiveName_of u filename),
         OpenFile (indexFilename_of filename) [O_APPEND, O_CREATE, O_WRONLY] 420,
         WriteString (path_Clean (indexFilename_of filename))
           (indexLine seq (archiveName_of u filename)),
         Close (path_Clean (indexFilename_of filename))]"
proof -
  let ?an = "archiveName_of u filename"
  obtain r1 w1 where s1: "os_MkdirAll (path_Dir ?an) 488 w = (r1, w1)" by force
  obtain r2 w3 where s2:
    "os_Rename filename ?an (logger_Debug ''Archive file'' filename ?an w1) = (r2, w3)"
    by force
  obtain r3 w4 where s3: "updateIndex u filename ?an seq w3 = (r3, w4)" by force
  note f1 = os_MkdirAll_frame [OF s1] and f2 = os_Rename_frame [OF s2]
    and f3 = updateIndex_frame [OF s3]
  note run = msgHandler_payload [OF assms(1,2), of u w]
  have r1: "r1 = None"
  proof (cases r1)
    case (Some e)
    with run s1 assms(3) have "w' = logger_Error e (msg_Nak w1)" by simp
    with f1 assms(4) show ?thesis by simp
  qed simp
  have r2: "r2 = None"
  proof (cases r2)
    case (Some e)
    with run s1 s2 r1 assms(3) have "w' = logger_Error e (msg_Nak w3)" by simp
    with f1 f2 assms(4) show ?thesis by simp
  qed simp
  have r3: "r3 = None"
  proof (cases r3)
    case (Some e)
    with run s1 s2 s3 r1 r2 assms(3) have "w' = logger_Error e (msg_Nak w4)" by simp
    with f1 f2 f3 assms(4) show ?thesis by simp
  qed simp
  from run s1 s2 s3 r1 r2 r3 assms(3) have w': "w' = msg_Ack w4" by simp
  from updateIndex_ok [OF s3 [unfolded r3]] f1 f2 w' s1 s2 r1 r2
  show ?thesis by simp
qed

subsection \<open>The ledger record operation\<close>

text \<open>
  Claim C6 says that the ledger record operation opens \<^verbatim>\<open>archive.index\<close> for append,
  creating it if absent, writes the single line, and that the written data is flushed
  or committed to persistent storage before it returns success. In package \<^verbatim>\<open>os\<close>
  the call that commits a file's data to stable storage is \<^verbatim>\<open>File.Sync\<close>;
  \<^verbatim>\<open>updateIndex\<close> never makes it. Here it returns success after opening, writing and
  closing, and no \<^verbatim>\<open>Sync\<close> is among its calls.
\<close>

theorem updateIndex_no_sync_counterexample:
  "(case updateIndex u0 ''/datastore/a/b/file.dat'' ''/archivestore/a/b/file.dat'' ''42'' w0 of
      (err, w') \<Rightarrow>
        err = None
        \<and> files w' ''/datastore/a/b/archive.index''
            = Some (File ''42:/archivestore/a/b/file.dat\<newline>'')
        \<and> calls w' =
            [OpenFile ''/datastore/a/b/archive.index'' [O_APPEND, O_CREATE, O_WRONLY] 420,
             WriteString ''/datastore/a/b/archive.index'' ''42:/archivestore/a/b/file.dat\<newline>'',
             Close ''/datastore/a/b/archive.index'']
        \<and> Sync ''/datastore/a/b/archive.index'' \<notin> set (calls w'))"
  by code_simp


text \<open>
  Claim C6, amended: a successful \<^verbatim>\<open>updateIndex\<close> makes exactly three calls: it opens
  the index file with \<^verbatim>\<open>O_APPEND|O_CREATE|O_WRONLY\<close> and mode 0644, writes the line with
  one \<^verbatim>\<open>WriteString\<close>, and closes the file. Afterwards the file holds what it held
  before (nothing, if it was absent) followed by the line. It requests no sync: every
  \<^verbatim>\<open>Sync\<close> among the calls was made before.
\<close>

theorem updateIndex_appends_without_sync:
  assumes "updateIndex u filename archiveName seq w = (None, w')"
  shows "calls w' = calls w @
            [OpenFile (indexFilename_of filename) [O_APPEND, O_CREATE, O_WRONLY] 420,
             WriteString (path_Clean (indexFilename_of filename)) (indexLine seq archiveName),
             Close (path_Clean (indexFilename_of filename))]
    \<and> files w' (path_Clean (indexFilename_of filename))
        = Some (File (content (files w) (path_Clean (indexFilename_of filename))
                        @ indexLine seq archiveName))
    \<and> (\<forall>name. Sync name \<in> set (calls w') \<longrightarrow> Sync name \<in> set (calls w))"
  using updateIndex_ok [OF assms] by auto


theorem updateIndex_appends_without_sync_witness:
  "(case updateIndex u0 ''/tmp/f.dat'' ''/tmp/f.dat'' ''7'' w0 of
      (err, w') \<Rightarrow>
        err = None
        \<and> calls w' = calls w0 @
            [OpenFile (indexFilename_of ''/tmp/f.dat'') [O_APPEND, O_CREATE, O_WRONLY] 420,
             WriteString (path_Clean (indexFilename_of ''/tmp/f.dat'')) (indexLine ''7'' ''/tmp/f.dat''),
             Close (path_Clean (indexFilename_of ''/tmp/f.dat''))]
        \<and> files w' (path_Clean (indexFilename_of ''/tmp/f.dat''))
            = Some (File (content (files w0) (path_Clean (indexFilename_of ''/tmp/f.dat''))
                        @ indexLine ''7'' ''/tmp/f.dat'')))"
proof -
  obtain err w' where r: "updateIndex u0 ''/tmp/f.dat'' ''/tmp/f.dat'' ''7'' w0 = (err, w')"
    by force
  have "fst (updateIndex u0 ''/tmp/f.dat'' ''/tmp/f.dat'' ''7'' w0) = None"
    by code_simp
  with r have ok: "updateIndex u0 ''/tmp/f.dat'' ''/tmp/f.dat'' ''7'' w0 = (None, w')"
    by simp
  from updateIndex_appends_without_sync [OF ok] ok show ?thesis
    by simp
qed

subsection \<open>Where the ledger line goes\<close>

text \<open>
  Claim C1 says that for every job whose move succeeds the ledger line is appended to
  \<^verbatim>\<open>archive.index\<close> in the parent directory of the archive name, the destination
  directory under the archivestore root. \<^verbatim>\<open>msgHandler\<close> passes the source file name to
  \<^verbatim>\<open>updateIndex\<close>, which takes \<^verbatim>\<open>path.Dir\<close> of it: in the spec's scenario the job
  succeeds, the file arrives under the archivestore, no \<^verbatim>\<open>archive.index\<close> exists in the
  destination directory, and the line is in the source directory's \<^verbatim>\<open>archive.index\<close>.
\<close>

theorem msgHandler_ledger_counterexample:
  "(case msgHandler u0 \<lparr>Data = ''42:/datastore/a/b/file.dat''\<rparr> w0 of
      Panic \<Rightarrow> False
    | Done w' \<Rightarrow>
        acks w' = [Ack]
        \<and> files w' ''/archivestore/a/b/file.dat'' = Some (File ''DATA'')
        \<and> files w' ''/archivestore/a/b/archive.index'' = None
        \<and> files w' ''/datastore/a/b/archive.index''
            = Some (File ''42:/archivestore/a/b/file.dat\<newline>''))"
  by code_simp

text \<open>
  Claim C1, amended: for every job that ends with a positive acknowledgment, directory
  creation and rename succeeded, and the ledger record operation appended exactly one
  line \<open>seq:archiveName\<close> and a newline to the file \<^verbatim>\<open>archive.index\<close> in the parent
  directory of the source file name (\<open>indexFilename_of filename\<close>), changing no other
  name; archiveName is the destination the rename used. The handler made exactly five
  file-system calls, one of them a write.
\<close>

theorem msgHandler_ledger_in_source_directory:
  assumes "Data m = seq @ '':'' @ filename" and "CHR '':'' \<notin> set seq"
    and "msgHandler u m w = Done w'" and "acks w' = acks w @ [Ack]"
  shows "\<exists>w1 w3.
      os_MkdirAll (path_Dir (archiveName_of u filename)) 488 w = (None, w1)
    \<and> os_Rename filename (archiveName_of u filename)
        (logger_Debug ''Archive file'' filename (archiveName_of u filename) w1) = (None, w3)
    \<and> files w' (path_Clean (indexFilename_of filename))
        = Some (File (content (files w3) (path_Clean (indexFilename_of filename))
                        @ indexLine seq (archiveName_of u filename)))
    \<and> (\<forall>p. p \<noteq> path_Clean (indexFilename_of filename) \<longrightarrow> files w' p = files w3 p)
    \<and> calls w' = calls w @
        [MkdirAll (path_Dir (archiveName_of u filename)) 488,
         Rename filename (archiveName_of u filename),
         OpenFile (indexFilename_of filename) [O_APPEND, O_CREATE, O_WRONLY] 420,
         WriteString (path_Clean (indexFilename_of filename))
           (indexLine seq (archiveName_of u filename)),
         Close (path_Clean (indexFilename_of filename))]"
  using assms by (rule msgHandler_acked)

theorem msgHandler_ledger_in_source_directory_witness:
  "Data job_msg = ''42'' @ '':'' @ job_file
   \<and> CHR '':'' \<notin> set ''42''
   \<and> path_Clean (indexFilename_of job_file) = ''/datastore/a/b/archive.index''
   \<and> (\<exists>w'. msgHandler u0 job_msg w0 = Done w'
         \<and> acks w' = acks w0 @ [Ack]
         \<and> (\<exists>w3::world. files w' (path_Clean (indexFilename_of job_file))
               = Some (File (content (files w3) (path_Clean (indexFilename_of job_file))
                             @ indexLine ''42'' (archiveName_of u0 job_file)))))"
proof -
  have h1: "Data job_msg = ''42'' @ '':'' @ job_file" by (simp add: job_msg_def)
  have h2: "CHR '':'' \<notin> set ''42''" by simp
  have k: "path_Clean (indexFilename_of job_file) = ''/datastore/a/b/archive.index''"
    by code_simp
  have "(case msgHandler u0 job_msg w0 of Panic \<Rightarrow> False | Done w' \<Rightarrow> acks w' = acks w0 @ [Ack])"
    by code_simp
  then obtain w' where d: "msgHandler u0 job_msg w0 = Done w'" and a: "acks w' = acks w0 @ [Ack]"
    by (cases "msgHandler u0 job_msg w0") auto
  from msgHandler_ledger_in_source_directory [OF h1 h2 d a]
  have "\<exists>w3::world. files w' (path_Clean (indexFilename_of job_file))
               = Some (File (content (files w3) (path_Clean (indexFilename_of job_file))
                             @ indexLine ''42'' (archiveName_of u0 job_file)))"
  proof (elim exE conjE)
    fix w1 w3 :: world
    assume "files w' (path_Clean (indexFilename_of job_file))
               = Some (File (content (files w3) (path_Clean (indexFilename_of job_file))
                             @ indexLine ''42'' (archiveName_of u0 job_file)))"
    then show ?thesis by (rule exI)
  qed
  with d a have "msgHandler u0 job_msg w0 = Done w'
         \<and> acks w' = acks w0 @ [Ack]
         \<and> (\<exists>w3::world. files w' (path_Clean (indexFilename_of job_file))
               = Some (File (content (files w3) (path_Clean (indexFilename_of job_file))
                             @ indexLine ''42'' (archiveName_of u0 job_file))))"
    by (intro conjI)
  then have "\<exists>w'. msgHandler u0 job_msg w0 = Done w'
         \<and> acks w' = acks w0 @ [Ack]
         \<and> (\<exists>w3::world. files w' (path_Clean (indexFilename_of job_file))
               = Some (File (content (files w3) (path_Clean (indexFilename_of job_file))
                             @ indexLine ''42'' (archiveName_of u0 job_file))))"
    by (rule exI)
  with h1 h2 k show ?thesis
    by (intro conjI)
qed

subsection \<open>Failure of directory creation\<close>

text \<open>
  Claim C7: if creation of the destination directory chain fails, the rename is never
  attempted, the message receives a negative acknowledgment, no ledger write is
  attempted, and the source file is left untouched. For a payload with a separator: when
  \<^verbatim>\<open>MkdirAll\<close> returns an error, the handler returns after one \<^verbatim>\<open>Nak\<close>, \<^verbatim>\<open>MkdirAll\<close> is
  the only file-system call it made (no \<^verbatim>\<open>Rename\<close>, \<^verbatim>\<open>OpenFile\<close> or \<^verbatim>\<open>WriteString\<close>),
  and every node that was in the file system, the source file among them, is still there
  unchanged.
\<close>

theorem msgHandler_mkdir_failure:
  assumes "Data m = seq @ '':'' @ filename" and "CHR '':'' \<notin> set seq"
    and "fst (os_MkdirAll (path_Dir (archiveName_of u filename)) 488 w) \<noteq> None"
  shows "\<exists>w'. msgHandler u m w = Done w'
        \<and> acks w' = acks w @ [Nak]
        \<and> calls w' = calls w @ [MkdirAll (path_Dir (archiveName_of u filename)) 488]
        \<and> (\<forall>p n. files w p = Some n \<longrightarrow> files w' p = Some n)"
proof -
  obtain r1 w1 where s1:
    "os_MkdirAll (path_Dir (archiveName_of u filename)) 488 w = (r1, w1)" by force
  with assms(3) obtain e where e: "r1 = Some e" by auto
  from msgHandler_payload [OF assms(1,2), of u w] s1 e
  have run: "msgHandler u m w = Done (logger_Error e (msg_Nak w1))" by simp
  from os_MkdirAll_frame [OF s1] os_MkdirAll_preserves [OF s1]
  have "acks (logger_Error e (msg_Nak w1)) = acks w @ [Nak]"
    and "calls (logger_Error e (msg_Nak w1))
           = calls w @ [MkdirAll (path_Dir (archiveName_of u filename)) 488]"
    and "\<forall>p n. files w p = Some n \<longrightarrow> files (logger_Error e (msg_Nak w1)) p = Some n"
    by simp_all
  with run show ?thesis by (intro exI [of _ "logger_Error e (msg_Nak w1)"] conjI)
qed



theorem msgHandler_mkdir_failure_witness:
  "Data job_msg = ''42'' @ '':'' @ job_file
   \<and> CHR '':'' \<notin> set ''42''
   \<and> fst (os_MkdirAll (path_Dir (archiveName_of u0 job_file)) 488 w_denied) \<noteq> None
   \<and> files w_denied job_file = Some (File ''DATA'')
   \<and> (\<exists>w'. msgHandler u0 job_msg w_denied = Done w'
        \<and> acks w' = acks w_denied @ [Nak]
        \<and> calls w' = calls w_denied @ [MkdirAll (path_Dir (archiveName_of u0 job_file)) 488]
        \<and> files w' job_file = Some (File ''DATA''))"
proof -
  have h1: "Data job_msg = ''42'' @ '':'' @ job_file" by (simp add: job_msg_def)
  have h2: "CHR '':'' \<notin> set ''42''" by simp
  have h3: "fst (os_MkdirAll (path_Dir (archiveName_of u0 job_file)) 488 w_denied) \<noteq> None"
    by code_simp
  have src: "files w_denied job_file = Some (File ''DATA'')"
    by code_simp
  note r = msgHandler_mkdir_failure [OF h1 h2 h3]
  show ?thesis
  proof (cases "msgHandler u0 job_msg w_denied")
    case Panic
    with r show ?thesis by simp
  next
    case (Done w')
    with r have a: "acks w' = acks w_denied @ [Nak]"
      and c: "calls w' = calls w_denied @ [MkdirAll (path_Dir (archiveName_of u0 job_file)) 488]"
      and f: "\<forall>p n. files w_denied p = Some n \<longrightarrow> files w' p = Some n"
      by simp_all
    from f [rule_format, OF src] have "files w' job_file = Some (File ''DATA'')" .
    with a c have "acks w' = acks w_denied @ [Nak]
        \<and> calls w' = calls w_denied @ [MkdirAll (path_Dir (archiveName_of u0 job_file)) 488]
        \<and> files w' job_file = Some (File ''DATA'')"
      by (intro conjI)
    with Done h1 h2 h3 src show ?thesis by simp
  qed
qed

subsection \<open>Outcomes of a run\<close>

lemma msgHandler_outcome:
  assumes "Data m = seq @ '':'' @ filename" and "CHR '':'' \<notin> set seq"
  shows "\<exists>w'. msgHandler u m w = Done w'
     \<and> prefix (calls w @ [MkdirAll (path_Dir (archiveName_of u filename)) 488]) (calls w')
     \<and> (acks w' = acks w @ [Ack] \<or> acks w' = acks w @ [Nak])
     \<and> ((acks w' = acks w @ [Ack]) =
          (\<exists>w1 w3 w4.
             os_MkdirAll (path_Dir (archiveName_of u filename)) 488 w = (None, w1)
           \<and> os_Rename filename (archiveName_of u filename)
               (logger_Debug ''Archive file'' filename (archiveName_of u filename) w1)
               = (None, w3)
           \<and> updateIndex u filename (archiveName_of u filename) seq w3 = (None, w4)))"
proof -
  let ?an = "archiveName_of u filename"
  obtain r1 w1 where s1: "os_MkdirAll (path_Dir ?an) 488 w = (r1, w1)" by force
  obtain r2 w3 where s2:
    "os_Rename filename ?an (logger_Debug ''Archive file'' filename ?an w1) = (r2, w3)"
    by force
  obtain r3 w4 where s3: "updateIndex u filename ?an seq w3 = (r3, w4)" by force
  note f1 = os_MkdirAll_frame [OF s1] and f2 = os_Rename_frame [OF s2]
    and f3 = updateIndex_frame [OF s3]
  note run = msgHandler_payload [OF assms, of u w]
  show ?thesis
  proof (cases r1)
    case (Some e)
    with run s1 have "msgHandler u m w = Done (logger_Error e (msg_Nak w1))" by simp
    with f1 s1 Some show ?thesis by simp
  next
    case r1: None
    show ?thesis
    proof (cases r2)
      case (Some e)
      with run s1 s2 r1 have "msgHandler u m w = Done (logger_Error e (msg_Nak w3))" by simp
      with f1 f2 s1 s2 r1 Some show ?thesis by simp
    next
      case r2: None
      show ?thesis
      proof (cases r3)
        case (Some e)
        with run s1 s2 s3 r1 r2 have "msgHandler u m w = Done (logger_Error e (msg_Nak w4))"
          by simp
        moreover from f1 f2 f3
        have "prefix (calls w @ [MkdirAll (path_Dir ?an) 488]) (calls w4)" by auto
        ultimately show ?thesis using f1 f2 f3 s1 s2 s3 r1 r2 Some by simp
      next
        case r3: None
        with run s1 s2 s3 r1 r2 have "msgHandler u m w = Done (msg_Ack w4)" by simp
        moreover from f1 f2 f3
        have "prefix (calls w @ [MkdirAll (path_Dir ?an) 488]) (calls w4)" by auto
        ultimately show ?thesis using f1 f2 f3 s1 s2 s3 r1 r2 r3 by simp
      qed
    qed
  qed
qed

lemma run_DoneD: "\<exists>w'. r = Done w' \<and> P w' \<Longrightarrow> r = Done w \<Longrightarrow> P w"
  by auto

lemma same_call_refl: "same_call c c"
  by (cases c) simp_all

lemma same_calls_refl: "list_all2 same_call cs cs"
  by (simp add: list_all2_refl same_call_refl)

lemma updateIndex_same_calls:
  assumes a: "updateIndex u fn an seq w = (e, w1)"
    and b: "updateIndex u fn an seq' w = (e', w2)"
  shows "list_all2 same_call (calls w1) (calls w2)"
  using a
proof (cases rule: updateIndex_cases)
  case (open_failed e0 wa)
  with b have "w2 = wa" by (cases rule: updateIndex_cases) simp_all
  with open_failed show ?thesis by (simp add: same_calls_refl)
next
  case (opened f wa wb)
  from b opened(1) obtain wb' where
    wr: "file_WriteString f (indexLine seq' an) wa = (e', wb')" and w2: "w2 = file_Close f wb'"
    by (cases rule: updateIndex_cases) simp_all
  from file_WriteString_frame [OF opened(2)] file_WriteString_frame [OF wr] opened(3) w2
  have "calls w1 = calls wa @ [WriteString (fname f) (indexLine seq an), Close (fname f)]"
    and "calls w2 = calls wa @ [WriteString (fname f) (indexLine seq' an), Close (fname f)]"
    by (simp_all add: file_Close_def)
  then show ?thesis
    by (simp add: list_all2_appendI same_calls_refl)
qed

lemma msgHandler_same_calls:
  assumes "Data m = seq @ '':'' @ filename" and "CHR '':'' \<notin> set seq"
    and "Data m' = seq' @ '':'' @ filename" and "CHR '':'' \<notin> set seq'"
    and "msgHandler u m w = Done w'"
  shows "\<exists>w''. msgHandler u m' w = Done w'' \<and> list_all2 same_call (calls w') (calls w'')"
proof -
  let ?an = "archiveName_of u filename"
  obtain r1 w1 where s1: "os_MkdirAll (path_Dir ?an) 488 w = (r1, w1)" by force
  obtain r2 w3 where s2:
    "os_Rename filename ?an (logger_Debug ''Archive file'' filename ?an w1) = (r2, w3)"
    by force
  obtain r3 w4 where s3: "updateIndex u filename ?an seq w3 = (r3, w4)" by force
  obtain r3' w4' where s3': "updateIndex u filename ?an seq' w3 = (r3', w4')" by force
  note run = msgHandler_payload [OF assms(1,2), of u w]
  note run' = msgHandler_payload [OF assms(3,4), of u w]
  note same = updateIndex_same_calls [OF s3 s3']
  show ?thesis
  proof (cases r1)
    case (Some e)
    with run run' s1 assms(5) show ?thesis by (auto simp: same_calls_refl)
  next
    case r1: None
    show ?thesis
    proof (cases r2)
      case (Some e)
      with run run' s1 s2 r1 assms(5) show ?thesis by (auto simp: same_calls_refl)
    next
      case r2: None
      from run s1 s2 s3 r1 r2 assms(5) have "calls w' = calls w4"
        by (cases r3) auto
      moreover from run' s1 s2 s3' r1 r2
      have "\<exists>w''. msgHandler u m' w = Done w'' \<and> calls w'' = calls w4'"
        by (cases r3') auto
      ultimately show ?thesis using same by auto
    qed
  qed
qed





subsection \<open>Source paths outside the datastore\<close>




subsection \<open>An empty sequence token\<close>

text \<open>
  Claim C9: for a payload whose first character is \<open>:\<close> the sequence token is empty and
  the handler validates nothing. It returns (no panic), starting with the directory
  creation; when it ends with a positive acknowledgment it made the five calls of a
  successful job and the ledger file ends with a line that begins with \<open>:\<close>. The run
  is as for a non-empty sequence: on the same file name and world, a payload with any
  sequence token makes the same calls up to the data written.
\<close>

theorem msgHandler_empty_sequence:
  assumes "Data m = '':'' @ filename"
  shows "\<exists>w'. msgHandler u m w = Done w'
     \<and> prefix (calls w @ [MkdirAll (path_Dir (archiveName_of u filename)) 488]) (calls w')
     \<and> (acks w' = acks w @ [Ack] \<longrightarrow>
          calls w' = calls w @
            [MkdirAll (path_Dir (archiveName_of u filename)) 488,
             Rename filename (archiveName_of u filename),
             OpenFile (indexFilename_of filename) [O_APPEND, O_CREATE, O_WRONLY] 420,
             WriteString (path_Clean (indexFilename_of filename))
               ('':'' @ archiveName_of u filename @ [CHR 0x0A]),
             Close (path_Clean (indexFilename_of filename))]
          \<and> (\<exists>old. files w' (path_Clean (indexFilename_of filename))
                 = Some (File (old @ '':'' @ archiveName_of u filename @ [CHR 0x0A]))))
     \<and> (\<forall>seq m'. CHR '':'' \<notin> set seq \<and> Data m' = seq @ '':'' @ filename \<longrightarrow>
          (\<exists>w''. msgHandler u m' w = Done w''
                \<and> list_all2 same_call (calls w') (calls w'')))"
proof -
  from assms have p: "Data m = [] @ '':'' @ filename" and q: "CHR '':'' \<notin> set []"
    by simp_all
  from msgHandler_outcome [OF p q, of u w] obtain w' where
    d: "msgHandler u m w = Done w'"
    and c: "prefix (calls w @ [MkdirAll (path_Dir (archiveName_of u filename)) 488]) (calls w')"
    by (elim exE conjE)
  have acked: "calls w' = calls w @
            [MkdirAll (path_Dir (archiveName_of u filename)) 488,
             Rename filename (archiveName_of u filename),
             OpenFile (indexFilename_of filename) [O_APPEND, O_CREATE, O_WRONLY] 420,
             WriteString (path_Clean (indexFilename_of filename))
               ('':'' @ archiveName_of u filename @ [CHR 0x0A]),
             Close (path_Clean (indexFilename_of filename))]
          \<and> (\<exists>old. files w' (path_Clean (indexFilename_of filename))
                 = Some (File (old @ '':'' @ archiveName_of u filename @ [CHR 0x0A])))"
    if a: "acks w' = acks w @ [Ack]"
    using msgHandler_acked [OF p q d a] by (auto simp: indexLine_def)
  have others: "\<exists>w''. msgHandler u m' w = Done w'' \<and> list_all2 same_call (calls w') (calls w'')"
    if "CHR '':'' \<notin> set seq \<and> Data m' = seq @ '':'' @ filename" for seq m'
    using that msgHandler_same_calls [OF p q _ _ d, of m' seq] by simp
  have part2: "acks w' = acks w @ [Ack] \<longrightarrow>
          calls w' = calls w @
            [MkdirAll (path_Dir (archiveName_of u filename)) 488,
             Rename filename (archiveName_of u filename),
             OpenFile (indexFilename_of filename) [O_APPEND, O_CREATE, O_WRONLY] 420,
             WriteString (path_Clean (indexFilename_of filename))
               ('':'' @ archiveName_of u filename @ [CHR 0x0A]),
             Close (path_Clean (indexFilename_of filename))]
          \<and> (\<exists>old. files w' (path_Clean (indexFilename_of filename))
                 = Some (File (old @ '':'' @ archiveName_of u filename @ [CHR 0x0A])))"
    by (intro impI) (rule acked)
  have part3: "\<forall>seq m'. CHR '':'' \<notin> set seq \<and> Data m' = seq @ '':'' @ filename \<longrightarrow>
          (\<exists>w''. msgHandler u m' w = Done w''
                \<and> list_all2 same_call (calls w') (calls w''))"
    by (intro allI impI) (rule others)
  from d c part2 part3 have body: "msgHandler u m w = Done w'
     \<and> prefix (calls w @ [MkdirAll (path_Dir (archiveName_of u filename)) 488]) (calls w')
     \<and> (acks w' = acks w @ [Ack] \<longrightarrow>
          calls w' = calls w @
            [MkdirAll (path_Dir (archiveName_of u filename)) 488,
             Rename filename (archiveName_of u filename),
             OpenFile (indexFilename_of filename) [O_APPEND, O_CREATE, O_WRONLY] 420,
             WriteString (path_Clean (indexFilename_of filename))
               ('':'' @ archiveName_of u filename @ [CHR 0x0A]),
             Close (path_Clean (indexFilename_of filename))]
          \<and> (\<exists>old. files w' (path_Clean (indexFilename_of filename))
                 = Some (File (old @ '':'' @ archiveName_of u filename @ [CHR 0x0A]))))
     \<and> (\<forall>seq m'. CHR '':'' \<notin> set seq \<and> Data m' = seq @ '':'' @ filename \<longrightarrow>
          (\<exists>w''. msgHandler u m' w = Done w''
                \<and> list_all2 same_call (calls w') (calls w'')))"
    by (intro conjI)
  show ?thesis by (rule exI) (rule body)
qed

theorem msgHandler_empty_sequence_witness:
  "Data empty_seq_msg = '':'' @ job_file
   \<and> CHR '':'' \<notin> set ''42''
   \<and> Data job_msg = ''42'' @ '':'' @ job_file
   \<and> (\<exists>w'. msgHandler u0 empty_seq_msg w0 = Done w'
         \<and> acks w' = acks w0 @ [Ack]
         \<and> calls w' = calls w0 @
            [MkdirAll (path_Dir (archiveName_of u0 job_file)) 488,
             Rename job_file (archiveName_of u0 job_file),
             OpenFile (indexFilename_of job_file) [O_APPEND, O_CREATE, O_WRONLY] 420,
             WriteString (path_Clean (indexFilename_of job_file))
               ('':'' @ archiveName_of u0 job_file @ [CHR 0x0A]),
             Close (path_Clean (indexFilename_of job_file))]
         \<and> (\<exists>old. files w' (path_Clean (indexFilename_of job_file))
                = Some (File (old @ '':'' @ archiveName_of u0 job_file @ [CHR 0x0A])))
         \<and> (\<exists>w''. msgHandler u0 job_msg w0 = Done w''
                \<and> list_all2 same_call (calls w') (calls w'')))"
proof -
  have h: "Data empty_seq_msg = '':'' @ job_file" by (simp add: empty_seq_msg_def)
  have h2: "CHR '':'' \<notin> set ''42''" by simp
  have h3: "Data job_msg = ''42'' @ '':'' @ job_file" by (simp add: job_msg_def)
  have ev: "(case msgHandler u0 empty_seq_msg w0 of Panic \<Rightarrow> False
             | Done w' \<Rightarrow> acks w' = acks w0 @ [Ack])"
    by code_simp
  note r = msgHandler_empty_sequence [OF h, of u0 w0]
  show ?thesis
  proof (cases "msgHandler u0 empty_seq_msg w0")
    case Panic
    with ev show ?thesis by simp
  next
    case (Done w')
    from ev Done have a: "acks w' = acks w0 @ [Ack]" by simp
    note full = run_DoneD [OF r Done]
    note imp = full [THEN conjunct2, THEN conjunct1]
    note others = full [THEN conjunct2, THEN conjunct2]
    from imp [rule_format, OF a] have c: "calls w' = calls w0 @
            [MkdirAll (path_Dir (archiveName_of u0 job_file)) 488,
             Rename job_file (archiveName_of u0 job_file),
             OpenFile (indexFilename_of job_file) [O_APPEND, O_CREATE, O_WRONLY] 420,
             WriteString (path_Clean (indexFilename_of job_file))
               ('':'' @ archiveName_of u0 job_file @ [CHR 0x0A]),
             Close (path_Clean (indexFilename_of job_file))]"
      and f: "\<exists>old. files w' (path_Clean (indexFilename_of job_file))
                 = Some (File (old @ '':'' @ archiveName_of u0 job_file @ [CHR 0x0A]))"
      by simp_all
    from others [rule_format, of "''42''" job_msg, OF conjI [OF h2 h3]]
    have o: "\<exists>w''. msgHandler u0 job_msg w0 = Done w''
                \<and> list_all2 same_call (calls w') (calls w'')"
      by simp
    from Done a c f o have body: "msgHandler u0 empty_seq_msg w0 = Done w'
         \<and> acks w' = acks w0 @ [Ack]
         \<and> calls w' = calls w0 @
            [MkdirAll (path_Dir (archiveName_of u0 job_file)) 488,
             Rename job_file (archiveName_of u0 job_file),
             OpenFile (indexFilename_of job_file) [O_APPEND, O_CREATE, O_WRONLY] 420,
             WriteString (path_Clean (indexFilename_of job_file))
               ('':'' @ archiveName_of u0 job_file @ [CHR 0x0A]),
             Close (path_Clean (indexFilename_of job_file))]
         \<and> (\<exists>old. files w' (path_Clean (indexFilename_of job_file))
                = Some (File (old @ '':'' @ archiveName_of u0 job_file @ [CHR 0x0A])))
         \<and> (\<exists>w''. msgHandler u0 job_msg w0 = Done w''
                \<and> list_all2 same_call (calls w') (calls w''))"
      by (intro conjI)
    have "\<exists>w'. msgHandler u0 empty_seq_msg w0 = Done w'
         \<and> acks w' = acks w0 @ [Ack]
         \<and> calls w' = calls w0 @
            [MkdirAll (path_Dir (archiveName_of u0 job_file)) 488,
             Rename job_file (archiveName_of u0 job_file),
             OpenFile (indexFilename_of job_file) [O_APPEND, O_CREATE, O_WRONLY] 420,
             WriteString (path_Clean (indexFilename_of job_file))
               ('':'' @ archiveName_of u0 job_file @ [CHR 0x0A]),
             Close (path_Clean (indexFilename_of job_file))]
         \<and> (\<exists>old. files w' (path_Clean (indexFilename_of job_file))
                = Some (File (old @ '':'' @ archiveName_of u0 job_file @ [CHR 0x0A])))
         \<and> (\<exists>w''. msgHandler u0 job_msg w0 = Done w''
                \<and> list_all2 same_call (calls w') (calls w''))"
      by (rule exI) (rule body)
    with h h2 h3 show ?thesis by (intro conjI)
  qed
qed

subsection \<open>A file already at the archive path\<close>



lemma rename_missing: "isl (stat fs a) \<Longrightarrow> \<exists>e. rename a b fs = (Some e, fs)"
  by (auto simp: rename_def stat_def isl_def
      split: sum.splits option.splits node.splits if_splits)




text \<open>
  \<^verbatim>\<open>os.Rename\<close> hands both names to the kernel as they are. A name that passes through
  a directory that does not exist is not found, although its cleaned form names the
  scenario's file.
\<close>

lemma rename_through_missing_directory:
  "path_Clean ''/datastore/zz/../a/b/file.dat'' = job_file
   \<and> rename ''/datastore/zz/../a/b/file.dat'' archive_file fs_occupied
       = (Some ENOENT, fs_occupied)"
proof -
  have c: "path_Clean ''/datastore/zz/../a/b/file.dat'' = job_file" by code_simp
  have e: "fst (rename ''/datastore/zz/../a/b/file.dat'' archive_file fs_occupied)
      = Some ENOENT"
    by code_simp
  have "isl (stat fs_occupied ''/datastore/zz/../a/b/file.dat'')" by code_simp
  from rename_missing [OF this, of archive_file] e
  have "rename ''/datastore/zz/../a/b/file.dat'' archive_file fs_occupied
      = (Some ENOENT, fs_occupied)"
    by auto
  with c show ?thesis by (rule conjI)
qed




subsection \<open>One acknowledgment decision for a payload with a separator\<close>

text \<open>
  For every payload with a separator the handler returns and has called exactly one of
  \<^verbatim>\<open>Ack\<close> and \<^verbatim>\<open>Nak\<close>, once; it is \<^verbatim>\<open>Ack\<close> exactly when directory creation, rename and
  ledger write all succeeded.
\<close>

theorem msgHandler_one_decision:
  assumes "Data m = seq @ '':'' @ filename" and "CHR '':'' \<notin> set seq"
  shows "\<exists>w'. msgHandler u m w = Done w'
     \<and> (acks w' = acks w @ [Ack] \<or> acks w' = acks w @ [Nak])
     \<and> ((acks w' = acks w @ [Ack]) =
          (\<exists>w1 w3 w4.
             os_MkdirAll (path_Dir (archiveName_of u filename)) 488 w = (None, w1)
           \<and> os_Rename filename (archiveName_of u filename)
               (logger_Debug ''Archive file'' filename (archiveName_of u filename) w1)
               = (None, w3)
           \<and> updateIndex u filename (archiveName_of u filename) seq w3 = (None, w4)))"
  using msgHandler_outcome [OF assms, of u w]
  by (elim exE conjE, intro exI conjI)

theorem msgHandler_one_decision_witness:
  "Data job_msg = ''42'' @ '':'' @ job_file
   \<and> CHR '':'' \<notin> set ''42''
   \<and> (\<exists>w'. msgHandler u0 job_msg w0 = Done w'
        \<and> acks w' = acks w0 @ [Ack]
        \<and> (\<exists>w1 w3 w4.
             os_MkdirAll (path_Dir (archiveName_of u0 job_file)) 488 w0 = (None, w1)
           \<and> os_Rename job_file (archiveName_of u0 job_file)
               (logger_Debug ''Archive file'' job_file (archiveName_of u0 job_file) w1)
               = (None, w3)
           \<and> updateIndex u0 job_file (archiveName_of u0 job_file) ''42'' w3 = (None, w4)))"
proof -
  have h1: "Data job_msg = ''42'' @ '':'' @ job_file" by (simp add: job_msg_def)
  have h2: "CHR '':'' \<notin> set ''42''" by simp
  have ev: "(case msgHandler u0 job_msg w0 of Panic \<Rightarrow> False
             | Done w' \<Rightarrow> acks w' = acks w0 @ [Ack])"
    by code_simp
  note r = msgHandler_one_decision [OF h1 h2, of u0 w0]
  show ?thesis
  proof (cases "msgHandler u0 job_msg w0")
    case Panic
    with ev show ?thesis by simp
  next
    case (Done w')
    note full = run_DoneD [OF r Done]
    from ev Done have a: "acks w' = acks w0 @ [Ack]" by simp
    note steps = full [THEN conjunct2, THEN iffD1, OF a]
    from Done a steps have body: "msgHandler u0 job_msg w0 = Done w'
        \<and> acks w' = acks w0 @ [Ack]
        \<and> (\<exists>w1 w3 w4.
             os_MkdirAll (path_Dir (archiveName_of u0 job_file)) 488 w0 = (None, w1)
           \<and> os_Rename job_file (archiveName_of u0 job_file)
               (logger_Debug ''Archive file'' job_file (archiveName_of u0 job_file) w1)
               = (None, w3)
           \<and> updateIndex u0 job_file (archiveName_of u0 job_file) ''42'' w3 = (None, w4))"
      by (intro conjI)
    have "\<exists>w'. msgHandler u0 job_msg w0 = Done w'
        \<and> acks w' = acks w0 @ [Ack]
        \<and> (\<exists>w1 w3 w4.
             os_MkdirAll (path_Dir (archiveName_of u0 job_file)) 488 w0 = (None, w1)
           \<and> os_Rename job_file (archiveName_of u0 job_file)
               (logger_Debug ''Archive file'' job_file (archiveName_of u0 job_file) w1)
               = (None, w3)
           \<and> updateIndex u0 job_file (archiveName_of u0 job_file) ''42'' w3 = (None, w4))"
      by (rule exI) (rule body)
    with h1 h2 show ?thesis by (intro conjI)
  qed
qed

subsection \<open>A ledger write that fails after the rename\<close>

lemma os_OpenFile_files:
  "os_OpenFile name flag perm w = (r, w') \<Longrightarrow> p \<noteq> path_Clean name \<Longrightarrow> files w' p = files w p"
  by (auto simp: os_OpenFile_def openFile_def Let_def
      split: option.splits prod.splits sum.splits if_splits node.splits)

lemma file_WriteString_files:
  "file_WriteString f s w = (r, w') \<Longrightarrow> p \<noteq> fname f \<Longrightarrow> files w' p = files w p"
  by (auto simp: file_WriteString_def writeString_def Let_def
      split: option.splits prod.splits if_splits node.splits)

lemma updateIndex_files:
  assumes "updateIndex u filename archiveName seq w = (err, w')"
    and "p \<noteq> path_Clean (indexFilename_of filename)"
  shows "files w' p = files w p"
  using assms(1)
proof (cases rule: updateIndex_cases)
  case (open_failed e w1)
  with os_OpenFile_files [OF open_failed(1) assms(2)] show ?thesis by simp
next
  case (opened f w1 w2)
  from os_OpenFile_ok [OF opened(1)] have "fname f = path_Clean (indexFilename_of filename)"
    by simp
  with assms(2) have "p \<noteq> fname f" by simp
  from file_WriteString_files [OF opened(2) this] os_OpenFile_files [OF opened(1) assms(2)]
    opened(3)
  show ?thesis by (simp add: file_Close_def)
qed

text \<open>
  When directory creation and rename have succeeded and the ledger record operation
  fails, the handler acknowledges negatively and undoes nothing: apart from the ledger
  file's name, the file system is as the rename left it, so the file stays at the archive
  path.
\<close>

theorem msgHandler_no_rollback:
  assumes "Data m = seq @ '':'' @ filename" and "CHR '':'' \<notin> set seq"
    and "os_MkdirAll (path_Dir (archiveName_of u filename)) 488 w = (None, w1)"
    and "os_Rename filename (archiveName_of u filename)
           (logger_Debug ''Archive file'' filename (archiveName_of u filename) w1) = (None, w3)"
    and "fst (updateIndex u filename (archiveName_of u filename) seq w3) \<noteq> None"
  shows "\<exists>w'. msgHandler u m w = Done w'
      \<and> acks w' = acks w @ [Nak]
      \<and> (\<forall>p. p \<noteq> path_Clean (indexFilename_of filename) \<longrightarrow> files w' p = files w3 p)"
proof -
  let ?an = "archiveName_of u filename"
  obtain r3 w4 where s3: "updateIndex u filename ?an seq w3 = (r3, w4)" by force
  with assms(5) obtain e where e: "r3 = Some e" by auto
  from msgHandler_payload [OF assms(1,2), of u w] assms(3,4) s3 e
  have run: "msgHandler u m w = Done (logger_Error e (msg_Nak w4))" by simp
  from os_MkdirAll_frame [OF assms(3)] os_Rename_frame [OF assms(4)] updateIndex_frame [OF s3]
  have "acks (logger_Error e (msg_Nak w4)) = acks w @ [Nak]" by simp
  moreover from updateIndex_files [OF s3]
  have "\<forall>p. p \<noteq> path_Clean (indexFilename_of filename) \<longrightarrow>
          files (logger_Error e (msg_Nak w4)) p = files w3 p"
    by simp
  ultimately have body: "msgHandler u m w = Done (logger_Error e (msg_Nak w4))
      \<and> acks (logger_Error e (msg_Nak w4)) = acks w @ [Nak]
      \<and> (\<forall>p. p \<noteq> path_Clean (indexFilename_of filename) \<longrightarrow>
            files (logger_Error e (msg_Nak w4)) p = files w3 p)"
    using run by (intro conjI)
  show ?thesis by (rule exI) (rule body)
qed

theorem msgHandler_no_rollback_witness:
  "Data job_msg = ''42'' @ '':'' @ job_file
   \<and> CHR '':'' \<notin> set ''42''
   \<and> (case msgHandler u0 job_msg w_ledger_denied of
        Panic \<Rightarrow> False
      | Done w' \<Rightarrow>
          acks w' = acks w_ledger_denied @ [Nak]
          \<and> files w' ''/archivestore/a/b/file.dat'' = Some (File ''DATA'')
          \<and> files w' ''/datastore/a/b/file.dat'' = None)"
proof -
  have h1: "Data job_msg = ''42'' @ '':'' @ job_file" by (simp add: job_msg_def)
  have h2: "CHR '':'' \<notin> set ''42''" by simp
  let ?an = "archiveName_of u0 job_file"
  obtain r1 w1 where s1: "os_MkdirAll (path_Dir ?an) 488 w_ledger_denied = (r1, w1)" by force
  obtain r2 w3 where s2:
    "os_Rename job_file ?an (logger_Debug ''Archive file'' job_file ?an w1) = (r2, w3)"
    by force
  have "fst (os_MkdirAll (path_Dir ?an) 488 w_ledger_denied) = None" by code_simp
  with s1 have r1: "r1 = None" by simp
  have "fst (os_Rename job_file ?an (logger_Debug ''Archive file'' job_file ?an
          (snd (os_MkdirAll (path_Dir ?an) 488 w_ledger_denied)))) = None"
    by code_simp
  with s1 s2 have r2: "r2 = None" by simp
  have "fst (updateIndex u0 job_file ?an ''42''
          (snd (os_Rename job_file ?an (logger_Debug ''Archive file'' job_file ?an
            (snd (os_MkdirAll (path_Dir ?an) 488 w_ledger_denied)))))) \<noteq> None"
    by code_simp
  with s1 s2 have h5: "fst (updateIndex u0 job_file ?an ''42'' w3) \<noteq> None" by simp
  have f: "files (snd (os_Rename job_file ?an (logger_Debug ''Archive file'' job_file ?an
            (snd (os_MkdirAll (path_Dir ?an) 488 w_ledger_denied)))))
             ''/archivestore/a/b/file.dat'' = Some (File ''DATA'')
        \<and> files (snd (os_Rename job_file ?an (logger_Debug ''Archive file'' job_file ?an
            (snd (os_MkdirAll (path_Dir ?an) 488 w_ledger_denied)))))
             ''/datastore/a/b/file.dat'' = None"
    by code_simp
  with s1 s2 have f3: "files w3 ''/archivestore/a/b/file.dat'' = Some (File ''DATA'')"
    "files w3 ''/datastore/a/b/file.dat'' = None"
    by simp_all
  have k: "''/archivestore/a/b/file.dat'' \<noteq> path_Clean (indexFilename_of job_file)"
    "''/datastore/a/b/file.dat'' \<noteq> path_Clean (indexFilename_of job_file)"
    by code_simp+
  note r = msgHandler_no_rollback [OF h1 h2 s1 [unfolded r1] s2 [unfolded r2] h5]
  show ?thesis
  proof (cases "msgHandler u0 job_msg w_ledger_denied")
    case Panic
    with r show ?thesis by simp
  next
    case (Done w')
    note full = run_DoneD [OF r Done]
    note a = full [THEN conjunct1]
    note g = full [THEN conjunct2, rule_format]
    from g [OF k(1)] g [OF k(2)] f3 a Done h1 h2 show ?thesis by simp
  qed
qed

end
